theory Spec2Isabelle
  imports Complex_Main "HOL-Library.Sublist"
begin

section \<open>Python values used by the harness\<close>

text \<open>
  Python strings are modelled as \<^typ>\<open>string\<close>; the harness only concatenates, joins and
  searches them, so nothing depends on the character set. A private attribute \<open>_x\<close> of the
  source is written \<open>p_x\<close>, since an identifier cannot start with an underscore. Floats
  (timeouts, clock readings) are modelled as reals; the text Python prints for a float is
  supplied by a parameter \<open>fmt\<close> wherever an f-string formats one.

  A method that mutates its object returns the object's new state. An awaited operation
  of the environment (the subprocess, the protocol session, the clock) is an argument
  that says how the operation ended. Calls to the loggers change nothing that the model
  contains and are left out.
\<close>

definition nl :: string where
  "nl = [CHR 0x0A]"

text \<open>\<open>sep.join(xs)\<close>\<close>

fun str_join :: "string \<Rightarrow> string list \<Rightarrow> string" where
  "str_join sep [] = []"
| "str_join sep [x] = x"
| "str_join sep (x # y # ys) = x @ sep @ str_join sep (y # ys)"

text \<open>\<open>str(n)\<close> for the non-negative integers that \<open>len\<close> returns.\<close>

function str_nat :: "nat \<Rightarrow> string" where
  "str_nat n =
     (if n < 10 then [char_of (48 + n)]
      else str_nat (n div 10) @ [char_of (48 + n mod 10)])"
  by pat_completeness auto
termination
  by (relation "measure id") auto

declare str_nat.simps [simp del]

text \<open>
  The exceptions of the source, each carrying the text \<open>str(e)\<close> returns. A handler
  \<open>except TimeoutError\<close> takes the first constructor, \<open>except Exception\<close> takes all of them.
  Interrupts that are not subclasses of \<open>Exception\<close> are not part of the model.
\<close>

datatype exn =
    TimeoutError string
  | ConnectionError string
  | ValueError string
  | AssertionError string
  | OtherException string

fun str_exn :: "exn \<Rightarrow> string" where
  "str_exn (TimeoutError m) = m"
| "str_exn (ConnectionError m) = m"
| "str_exn (ValueError m) = m"
| "str_exn (AssertionError m) = m"
| "str_exn (OtherException m) = m"

section \<open>Protocol results\<close>

text \<open>
  A content block is a \<open>TextContent\<close>, some other object that has a \<open>text\<close> attribute
  (carried here already converted by \<open>str\<close>), or a block without text. The error flag of a
  result is optional because the source probes it with \<open>hasattr\<close>.
\<close>

datatype content =
    TextContent string
  | TextAttr string
  | NoText

record CallToolResult =
  content :: "content list"
  isError :: "bool option"

text \<open>\<open>hasattr(result, "isError") and result.isError\<close>\<close>

definition has_isError :: "CallToolResult \<Rightarrow> bool" where
  "has_isError r = (case isError r of None \<Rightarrow> False | Some b \<Rightarrow> b)"

section \<open>Server configuration and sessions\<close>

record ServerConfig =
  name :: string
  command :: string
  args :: "string list"
  env :: "(string \<times> string) list"
  cwd :: "string option"
  startup_timeout :: real
  shutdown_timeout :: real

record MCPTestConfig =
  servers :: "ServerConfig list"
  default_timeout :: real
  log_level :: string
  log_mcp_messages :: bool
  cleanup_on_failure :: bool
  parallel_servers :: bool

fun get_server_in :: "ServerConfig list \<Rightarrow> string \<Rightarrow> ServerConfig option" where
  "get_server_in [] n = None"
| "get_server_in (server # rest) n =
     (if ServerConfig.name server = n then Some server else get_server_in rest n)"

definition get_server :: "MCPTestConfig \<Rightarrow> string \<Rightarrow> ServerConfig option" where
  "get_server cfg n = get_server_in (servers cfg) n"

definition get_server_names :: "MCPTestConfig \<Rightarrow> string list" where
  "get_server_names cfg = map ServerConfig.name (servers cfg)"

text \<open>
  The resources a session owns (exit stack, streams, protocol session) are opaque; only
  their presence matters to the code. \<open>p_mcp_logger\<close> says whether a logger is attached.
\<close>

datatype resource = Resource

record MCPClientSession =
  p_config :: ServerConfig
  p_mcp_logger :: bool
  p_session :: "resource option"
  p_exit_stack :: "resource option"
  p_read_stream :: "resource option"
  p_write_stream :: "resource option"

definition MCPClientSession_init :: "ServerConfig \<Rightarrow> bool \<Rightarrow> MCPClientSession" where
  "MCPClientSession_init server_config mcp_logger =
     \<lparr>p_config = server_config, p_mcp_logger = mcp_logger, p_session = None,
      p_exit_stack = None, p_read_stream = None, p_write_stream = None\<rparr>"

definition session_name :: "MCPClientSession \<Rightarrow> string" where
  "session_name self = ServerConfig.name (p_config self)"

definition is_connected :: "MCPClientSession \<Rightarrow> bool" where
  "is_connected self = (p_session self \<noteq> None)"

text \<open>
  What the environment does during an awaited operation is an event given to the model.
  The events describe the executions in which every awaited operation ends: it returns,
  raises, or is cut off by the deadline around it.

  \<open>aclose_event\<close>: how \<open>AsyncExitStack.aclose\<close> ends when it is left to run.
  \<open>deadline_event\<close>: what happens to \<open>_cleanup\<close> under \<open>asyncio.timeout\<close>: it ends in
  time, or the deadline expires while \<open>aclose\<close> is awaited, which cancels \<open>_cleanup\<close>
  before it resets any attribute.
\<close>

datatype aclose_event = Closed | CloseRaised string

datatype deadline_event = InTime aclose_event | DeadlineExpired

text \<open>
  \<open>_cleanup\<close>, run to its end. An exception of \<open>aclose\<close> is caught and logged, so the
  event does not change the resulting attributes.
\<close>

definition cleanup :: "MCPClientSession \<Rightarrow> aclose_event \<Rightarrow> MCPClientSession" where
  "cleanup self ev =
     self\<lparr>p_session := None, p_exit_stack := None,
          p_read_stream := None, p_write_stream := None\<rparr>"

text \<open>
  \<open>connect\<close> acquires its resources in three steps under one deadline. The event says
  whether all three succeeded, or at which step the deadline expired (an
  \<open>asyncio.TimeoutError\<close> reached the handler) or another exception with the given text
  was raised. Both handlers run \<open>_cleanup\<close> before they raise.
\<close>

datatype connect_step = EnterStdio | EnterSession | Initialize

datatype connect_event =
    ConnectOk
  | ConnectExpired connect_step
  | ConnectRaised connect_step string

text \<open>
  The attributes assigned before the given step of \<open>connect\<close> runs. The last step assigns
  nothing, so these are also the attributes after a successful \<open>connect\<close>.
\<close>

fun acquired_before :: "connect_step \<Rightarrow> MCPClientSession \<Rightarrow> MCPClientSession" where
  "acquired_before EnterStdio self = self\<lparr>p_exit_stack := Some Resource\<rparr>"
| "acquired_before EnterSession self =
     self\<lparr>p_exit_stack := Some Resource, p_read_stream := Some Resource,
          p_write_stream := Some Resource\<rparr>"
| "acquired_before Initialize self =
     self\<lparr>p_exit_stack := Some Resource, p_read_stream := Some Resource,
          p_write_stream := Some Resource, p_session := Some Resource\<rparr>"

definition sq :: string where
  "sq = [CHR 0x27]"

definition connect ::
  "(real \<Rightarrow> string) \<Rightarrow> MCPClientSession \<Rightarrow> connect_event \<Rightarrow> aclose_event
     \<Rightarrow> (exn + unit) \<times> MCPClientSession" where
  "connect fmt self ev cev =
     (if is_connected self then (Inr (), self)
      else case ev of
        ConnectOk \<Rightarrow> (Inr (), acquired_before Initialize self)
      | ConnectExpired step \<Rightarrow>
          (Inl (TimeoutError
             (''Connection to MCP server '' @ sq @ session_name self @ sq @ '' timed out ''
              @ ''after '' @ fmt (startup_timeout (p_config self)) @ ''s'')),
           cleanup (acquired_before step self) cev)
      | ConnectRaised step e \<Rightarrow>
          (Inl (ConnectionError
             (''Failed to connect to MCP server '' @ sq @ session_name self @ sq @ '': '' @ e)),
           cleanup (acquired_before step self) cev))"

text \<open>
  \<open>disconnect\<close>: the first \<open>_cleanup\<close> runs under the shutdown deadline; when the deadline
  expires the \<open>TimeoutError\<close> is caught and \<open>_cleanup\<close> runs again without a deadline,
  ending as the second event says.
\<close>

definition disconnect ::
  "MCPClientSession \<Rightarrow> deadline_event \<Rightarrow> aclose_event \<Rightarrow> MCPClientSession" where
  "disconnect self ev forced =
     (if \<not> is_connected self then self
      else case ev of
        InTime a \<Rightarrow> cleanup self a
      | DeadlineExpired \<Rightarrow> cleanup self forced)"

definition ensure_connected :: "MCPClientSession \<Rightarrow> exn + unit" where
  "ensure_connected self =
     (if \<not> is_connected self
      then Inl (ConnectionError
             (''MCP server '' @ sq @ session_name self @ sq @ '' is not connected''))
      else Inr ())"

text \<open>
  \<open>call_tool\<close> of a session. The event is what the awaited protocol call does under the
  deadline. Since \<open>asyncio.TimeoutError\<close> is the builtin \<open>TimeoutError\<close>, a timeout raised
  by the protocol call itself is caught and replaced like an expired deadline.
\<close>

datatype tool_event = ToolReturned CallToolResult | ToolExpired | ToolRaised exn

definition call_tool ::
  "(real \<Rightarrow> string) \<Rightarrow> MCPClientSession \<Rightarrow> tool_event \<Rightarrow> string
     \<Rightarrow> (string \<times> 'v) list option \<Rightarrow> real option \<Rightarrow> exn + CallToolResult" where
  "call_tool fmt self ev tool arguments timeout =
     (case ensure_connected self of
        Inl e \<Rightarrow> Inl e
      | Inr _ \<Rightarrow>
          (let effective_timeout =
                 (case timeout of Some t \<Rightarrow> t | None \<Rightarrow> startup_timeout (p_config self));
               timed_out = TimeoutError
                 (''Tool call '' @ sq @ tool @ sq @ '' timed out after ''
                  @ fmt effective_timeout @ ''s'')
           in case ev of
                ToolReturned r \<Rightarrow> Inr r
              | ToolExpired \<Rightarrow> Inl timed_out
              | ToolRaised (TimeoutError m) \<Rightarrow> Inl timed_out
              | ToolRaised e \<Rightarrow> Inl e))"

section \<open>The server manager\<close>

text \<open>
  Sessions are mutable objects that the manager's registry refers to, so they live in an
  explicit store: a list of objects, an object's address being its index. Creating an
  object appends it. The registry \<open>_sessions\<close> is a dict from names to addresses: an
  association list with unique keys in insertion order. \<open>_locks\<close> is kept as the list of
  names that have a lock.
\<close>

type_synonym addr = nat

type_synonym store = "MCPClientSession list"

definition alloc :: "store \<Rightarrow> MCPClientSession \<Rightarrow> addr \<times> store" where
  "alloc st obj = (length st, st @ [obj])"

fun dict_set :: "('k \<times> 'a) list \<Rightarrow> 'k \<Rightarrow> 'a \<Rightarrow> ('k \<times> 'a) list" where
  "dict_set [] k v = [(k, v)]"
| "dict_set ((k', v') # d) k v =
     (if k' = k then (k, v) # d else (k', v') # dict_set d k v)"

fun dict_del :: "('k \<times> 'a) list \<Rightarrow> 'k \<Rightarrow> ('k \<times> 'a) list" where
  "dict_del [] k = []"
| "dict_del ((k', v') # d) k = (if k' = k then d else (k', v') # dict_del d k)"

record MCPServerManager =
  m_config :: MCPTestConfig
  m_mcp_logger :: bool
  p_sessions :: "(string \<times> addr) list"
  p_locks :: "string list"

definition MCPServerManager_init :: "MCPTestConfig \<Rightarrow> bool \<Rightarrow> MCPServerManager" where
  "MCPServerManager_init cfg mcp_logger =
     \<lparr>m_config = cfg, m_mcp_logger = mcp_logger, p_sessions = [], p_locks = []\<rparr>"

definition server_names :: "MCPServerManager \<Rightarrow> string list" where
  "server_names self = get_server_names (m_config self)"

definition connected_servers :: "MCPServerManager \<Rightarrow> store \<Rightarrow> string list" where
  "connected_servers self st =
     map fst (filter (\<lambda>(n, a). is_connected (st ! a)) (p_sessions self))"

text \<open>
  \<open>start_server\<close>. In the runs modelled here a lock is free whenever it is requested, so
  the lock only leaves its name in \<open>_locks\<close>. The new session object is created before
  \<open>connect\<close> is awaited and stays in the store when \<open>connect\<close> raises, unregistered.
\<close>

definition start_server ::
  "(real \<Rightarrow> string) \<Rightarrow> MCPServerManager \<Rightarrow> store \<Rightarrow> string \<Rightarrow> connect_event \<Rightarrow> aclose_event
     \<Rightarrow> (exn + addr) \<times> MCPServerManager \<times> store" where
  "start_server fmt self0 st server_name ev cev =
     (let self = (if server_name \<in> set (p_locks self0) then self0
                  else self0\<lparr>p_locks := p_locks self0 @ [server_name]\<rparr>);
          fresh =
            (case get_server (m_config self) server_name of
               None \<Rightarrow>
                 (let joined = str_join '', '' (server_names self);
                      available = (if joined = [] then ''(none)'' else joined)
                  in (Inl (ValueError
                        (''Server '' @ sq @ server_name @ sq @ '' not found in configuration. ''
                         @ ''Available servers: '' @ available)), self, st))
             | Some server_config \<Rightarrow>
                 (let (a, st1) = alloc st (MCPClientSession_init server_config (m_mcp_logger self));
                      (r, session) = connect fmt (st1 ! a) ev cev;
                      st2 = st1[a := session]
                  in case r of
                       Inl e \<Rightarrow> (Inl e, self, st2)
                     | Inr u \<Rightarrow>
                         (Inr a, self\<lparr>p_sessions := dict_set (p_sessions self) server_name a\<rparr>,
                          st2)))
      in case map_of (p_sessions self) server_name of
           None \<Rightarrow> fresh
         | Some a \<Rightarrow> if is_connected (st ! a) then (Inr a, self, st) else fresh)"

definition stop_server ::
  "MCPServerManager \<Rightarrow> store \<Rightarrow> string \<Rightarrow> deadline_event \<Rightarrow> aclose_event
     \<Rightarrow> MCPServerManager \<times> store" where
  "stop_server self st server_name ev forced =
     (case map_of (p_sessions self) server_name of
        None \<Rightarrow> (self, st)
      | Some a \<Rightarrow>
          (let st1 = (if is_connected (st ! a) then st[a := disconnect (st ! a) ev forced]
                      else st)
           in (self\<lparr>p_sessions := dict_del (p_sessions self) server_name\<rparr>, st1)))"

text \<open>
  \<open>stop_all_servers\<close>: the loop over a copy of the keys. The events of each disconnect
  are looked up by server name. \<open>stop_server\<close> raises nothing in the model, so the handler
  around it has no branch.
\<close>

fun stop_each ::
  "(string \<Rightarrow> deadline_event \<times> aclose_event) \<Rightarrow> string list \<Rightarrow> MCPServerManager \<Rightarrow> store
     \<Rightarrow> MCPServerManager \<times> store" where
  "stop_each dev [] self st = (self, st)"
| "stop_each dev (n # ns) self st =
     (let (self1, st1) = stop_server self st n (fst (dev n)) (snd (dev n))
      in stop_each dev ns self1 st1)"

definition stop_all_servers ::
  "MCPServerManager \<Rightarrow> store \<Rightarrow> (string \<Rightarrow> deadline_event \<times> aclose_event)
     \<Rightarrow> MCPServerManager \<times> store" where
  "stop_all_servers self st dev = stop_each dev (map fst (p_sessions self)) self st"

text \<open>
  \<open>_start_servers_sequential\<close>: the first exception leaves the loop. The \<open>i\<close>-th task of a
  run (counting from \<open>i\<close>) meets the events \<open>cev i\<close>.
\<close>

fun start_each ::
  "(real \<Rightarrow> string) \<Rightarrow> (nat \<Rightarrow> connect_event \<times> aclose_event) \<Rightarrow> nat \<Rightarrow> string list
     \<Rightarrow> MCPServerManager \<Rightarrow> store \<Rightarrow> (exn + unit) \<times> MCPServerManager \<times> store" where
  "start_each fmt cev i [] self st = (Inr (), self, st)"
| "start_each fmt cev i (n # ns) self st =
     (case start_server fmt self st n (fst (cev i)) (snd (cev i)) of
        (Inl e, self1, st1) \<Rightarrow> (Inl e, self1, st1)
      | (Inr a, self1, st1) \<Rightarrow> start_each fmt cev (Suc i) ns self1 st1)"

definition start_servers_sequential ::
  "(real \<Rightarrow> string) \<Rightarrow> MCPServerManager \<Rightarrow> store \<Rightarrow> string list
     \<Rightarrow> (nat \<Rightarrow> connect_event \<times> aclose_event)
     \<Rightarrow> (exn + (string \<times> addr) list) \<times> MCPServerManager \<times> store" where
  "start_servers_sequential fmt self st names cev =
     (case start_each fmt cev 0 names self st of
        (Inl e, self1, st1) \<Rightarrow> (Inl e, self1, st1)
      | (Inr u, self1, st1) \<Rightarrow> (Inr (p_sessions self1), self1, st1))"

text \<open>
  \<open>asyncio.gather(*tasks, return_exceptions=True)\<close>: every task runs, and its session or
  its exception is put at the task's position. The tasks share one thread, and a task
  writes the registry only at its own name, in one step after its \<open>connect\<close> has
  returned; the model runs the tasks one after the other in list order.
\<close>

fun gather_start ::
  "(real \<Rightarrow> string) \<Rightarrow> (nat \<Rightarrow> connect_event \<times> aclose_event) \<Rightarrow> nat \<Rightarrow> string list
     \<Rightarrow> MCPServerManager \<Rightarrow> store \<Rightarrow> (exn + addr) list \<times> MCPServerManager \<times> store" where
  "gather_start fmt cev i [] self st = ([], self, st)"
| "gather_start fmt cev i (n # ns) self st =
     (let (r, self1, st1) = start_server fmt self st n (fst (cev i)) (snd (cev i));
          (rs, self2, st2) = gather_start fmt cev (Suc i) ns self1 st1
      in (r # rs, self2, st2))"

text \<open>The loop that collects \<open>(name, exception)\<close> pairs into \<open>errors\<close>.\<close>

fun collect_errors ::
  "(string \<times> (exn + addr)) list \<Rightarrow> (string \<times> exn) list \<Rightarrow> (string \<times> exn) list" where
  "collect_errors [] errors = errors"
| "collect_errors ((n, Inl e) # rest) errors = collect_errors rest (errors @ [(n, e)])"
| "collect_errors ((n, Inr a) # rest) errors = collect_errors rest errors"

definition start_servers_parallel ::
  "(real \<Rightarrow> string) \<Rightarrow> MCPServerManager \<Rightarrow> store \<Rightarrow> string list
     \<Rightarrow> (nat \<Rightarrow> connect_event \<times> aclose_event) \<Rightarrow> (string \<Rightarrow> deadline_event \<times> aclose_event)
     \<Rightarrow> (exn + (string \<times> addr) list) \<times> MCPServerManager \<times> store" where
  "start_servers_parallel fmt self st names cev dev =
     (let (results, self1, st1) = gather_start fmt cev 0 names self st;
          errors = collect_errors (zip names results) []
      in if errors \<noteq> [] then
           (let (self2, st2) = stop_all_servers self1 st1 dev;
                error_msgs = map (\<lambda>(n, err). n @ '': '' @ str_exn err) errors
            in (Inl (ConnectionError
                  (''Failed to start '' @ str_nat (length errors) @ '' server(s):'' @ nl
                   @ str_join nl error_msgs)), self2, st2))
         else (Inr (p_sessions self1), self1, st1))"

text \<open>The argument \<open>parallel\<close> of the source is named \<open>in_parallel\<close>.\<close>

definition start_all_servers ::
  "(real \<Rightarrow> string) \<Rightarrow> MCPServerManager \<Rightarrow> store \<Rightarrow> bool
     \<Rightarrow> (nat \<Rightarrow> connect_event \<times> aclose_event) \<Rightarrow> (string \<Rightarrow> deadline_event \<times> aclose_event)
     \<Rightarrow> (exn + (string \<times> addr) list) \<times> MCPServerManager \<times> store" where
  "start_all_servers fmt self st in_parallel cev dev =
     (if servers (m_config self) = [] then (Inr [], self, st)
      else if in_parallel then start_servers_parallel fmt self st (server_names self) cev dev
      else start_servers_sequential fmt self st (server_names self) cev)"

section \<open>Tool call outcomes\<close>

text \<open>
  \<open>ToolCallResult\<close>, a dataclass; \<open>'v\<close> is the type of argument values. The argument dict
  is an association list. \<open>ToolCallResult_init\<close> is the constructor as \<open>ToolCaller.call\<close>
  uses it: \<open>_text_content\<close> takes its default \<open>None\<close>.
\<close>

record 'v ToolCallResult =
  name :: string
  arguments :: "(string \<times> 'v) list"
  result :: CallToolResult
  duration_seconds :: real
  success :: bool
  error_message :: "string option"
  p_text_content :: "string option"

definition ToolCallResult_init ::
  "string \<Rightarrow> (string \<times> 'v) list \<Rightarrow> CallToolResult \<Rightarrow> real \<Rightarrow> bool \<Rightarrow> string option
     \<Rightarrow> 'v ToolCallResult" where
  "ToolCallResult_init tool_name args0 res duration succ msg =
     \<lparr>name = tool_name, arguments = args0, result = res, duration_seconds = duration,
      success = succ, error_message = msg, p_text_content = None\<rparr>"

text \<open>The loop of \<open>text_content\<close> that appends to \<open>texts\<close>.\<close>

fun append_texts :: "content list \<Rightarrow> string list \<Rightarrow> string list" where
  "append_texts [] texts = texts"
| "append_texts (TextContent t # cs) texts = append_texts cs (texts @ [t])"
| "append_texts (TextAttr t # cs) texts = append_texts cs (texts @ [t])"
| "append_texts (NoText # cs) texts = append_texts cs texts"

text \<open>
  The property \<open>text_content\<close> returns the text and leaves the outcome with its memo
  \<open>_text_content\<close> set, except when there are no content blocks.
\<close>

definition text_content :: "'v ToolCallResult \<Rightarrow> string \<times> 'v ToolCallResult" where
  "text_content self =
     (case p_text_content self of
        Some t \<Rightarrow> (t, self)
      | None \<Rightarrow>
          if content (result self) = [] then ([], self)
          else (let texts = append_texts (content (result self)) [];
                    t = str_join nl texts
                in (t, self\<lparr>p_text_content := Some t\<rparr>)))"

definition is_error :: "'v ToolCallResult \<Rightarrow> bool" where
  "is_error self = has_isError (result self)"

section \<open>Assertions\<close>

record AssertionResult =
  passed :: bool
  message :: string
  expected :: "string option"
  actual :: "string option"
  details :: "string option"

text \<open>
  \<open>BaseAssertion\<close> is an abstract class with the method \<open>check\<close> and the property
  \<open>description\<close>; an assertion object is the pair of the two. \<open>check\<close> reads the outcome
  and returns an \<open>AssertionResult\<close>, as the \<open>check\<close> of every assertion class of the
  source does. An assertion that reads \<open>text_content\<close> leaves the memo of the outcome
  set; the memo changes no attribute or property that can be read from the outcome
  (lemma \<open>text_content_again\<close>) and is not counted as an effect of \<open>check\<close>.
\<close>

record 'v BaseAssertion =
  check :: "'v ToolCallResult \<Rightarrow> AssertionResult"
  description :: string

definition str_bool :: "bool \<Rightarrow> string" where
  "str_bool b = (if b then ''True'' else ''False'')"

definition SuccessAssertion_check :: "'v ToolCallResult \<Rightarrow> AssertionResult" where
  "SuccessAssertion_check res =
     \<lparr>passed = success res,
      message = ''Tool call should succeed'',
      expected = Some ''success=True'',
      actual = Some (''success='' @ str_bool (success res)),
      details = (if \<not> success res then error_message res else None)\<rparr>"

definition SuccessAssertion :: "'v BaseAssertion" where
  "SuccessAssertion = \<lparr>check = SuccessAssertion_check, description = ''Tool call succeeds''\<rparr>"

text \<open>
  A compiled pattern is the predicate ``\<open>search\<close> finds a match in this text''.
  \<open>re_compile p\<close> stands for \<open>re.compile(p, re.IGNORECASE)\<close>, which raises on an invalid
  pattern.
\<close>

type_synonym Pattern = "string \<Rightarrow> bool"

record ErrorAssertion =
  p_pattern :: "Pattern option"
  p_pattern_str :: "string option"

definition ErrorAssertion_init ::
  "(string \<Rightarrow> exn + Pattern) \<Rightarrow> string option \<Rightarrow> exn + ErrorAssertion" where
  "ErrorAssertion_init re_compile error_pattern =
     (case error_pattern of
        None \<Rightarrow> Inr \<lparr>p_pattern = None, p_pattern_str = None\<rparr>
      | Some p \<Rightarrow>
          if p = [] then Inr \<lparr>p_pattern = None, p_pattern_str = Some p\<rparr>
          else (case re_compile p of
                  Inl e \<Rightarrow> Inl e
                | Inr compiled \<Rightarrow> Inr \<lparr>p_pattern = Some compiled, p_pattern_str = Some p\<rparr>))"

definition str_opt :: "string option \<Rightarrow> string" where
  "str_opt x = (case x of None \<Rightarrow> ''None'' | Some t \<Rightarrow> t)"

definition ErrorAssertion_check :: "ErrorAssertion \<Rightarrow> 'v ToolCallResult \<Rightarrow> AssertionResult" where
  "ErrorAssertion_check self res =
     (let as_expected =
            \<lparr>passed = True, message = ''Tool call failed as expected'',
             expected = None, actual = None, details = None\<rparr>
      in if success res then
           \<lparr>passed = False, message = ''Tool call should fail'',
            expected = Some ''success=False (error)'', actual = Some ''success=True'',
            details = None\<rparr>
         else case p_pattern self of
           None \<Rightarrow> as_expected
         | Some pat \<Rightarrow>
             (case error_message res of
                None \<Rightarrow> as_expected
              | Some m \<Rightarrow>
                  if m \<noteq> [] \<and> \<not> pat m then
                    \<lparr>passed = False,
                     message = ''Error message should match pattern: ''
                               @ str_opt (p_pattern_str self),
                     expected = p_pattern_str self, actual = Some m, details = None\<rparr>
                  else as_expected))"

definition ErrorAssertion_description :: "ErrorAssertion \<Rightarrow> string" where
  "ErrorAssertion_description self =
     (case p_pattern_str self of
        None \<Rightarrow> ''Tool call fails''
      | Some p \<Rightarrow>
          if p = [] then ''Tool call fails''
          else ''Tool call fails with error matching '' @ sq @ p @ sq)"

definition ErrorAssertion_obj :: "ErrorAssertion \<Rightarrow> 'v BaseAssertion" where
  "ErrorAssertion_obj self =
     \<lparr>check = ErrorAssertion_check self, description = ErrorAssertion_description self\<rparr>"

text \<open>
  \<open>DurationAssertion\<close>. \<open>fmt\<close> prints a float as an f-string does, \<open>fmt2\<close> prints it with two
  decimals (\<open>:.2f\<close>).
\<close>

record DurationAssertion =
  p_max_seconds :: real
  p_min_seconds :: "real option"

definition DurationAssertion_check ::
  "(real \<Rightarrow> string) \<Rightarrow> (real \<Rightarrow> string) \<Rightarrow> DurationAssertion \<Rightarrow> 'v ToolCallResult
     \<Rightarrow> AssertionResult" where
  "DurationAssertion_check fmt fmt2 self res =
     (let duration = duration_seconds res;
          in_bounds =
            \<lparr>passed = True, message = ''Tool call completed in '' @ fmt2 duration @ ''s'',
             expected = None, actual = None, details = None\<rparr>
      in if duration > p_max_seconds self then
           \<lparr>passed = False,
            message = ''Tool call should complete within '' @ fmt (p_max_seconds self) @ ''s'',
            expected = Some (''<= '' @ fmt (p_max_seconds self) @ ''s''),
            actual = Some (fmt2 duration @ ''s''), details = None\<rparr>
         else case p_min_seconds self of
           None \<Rightarrow> in_bounds
         | Some lo \<Rightarrow>
             if duration < lo then
               \<lparr>passed = False,
                message = ''Tool call should take at least '' @ fmt lo @ ''s'',
                expected = Some (''>= '' @ fmt lo @ ''s''),
                actual = Some (fmt2 duration @ ''s''), details = None\<rparr>
             else in_bounds)"

definition DurationAssertion_description ::
  "(real \<Rightarrow> string) \<Rightarrow> DurationAssertion \<Rightarrow> string" where
  "DurationAssertion_description fmt self =
     (case p_min_seconds self of
        Some lo \<Rightarrow>
          ''Duration between '' @ fmt lo @ ''s and '' @ fmt (p_max_seconds self) @ ''s''
      | None \<Rightarrow> ''Duration <= '' @ fmt (p_max_seconds self) @ ''s'')"

definition DurationAssertion_obj ::
  "(real \<Rightarrow> string) \<Rightarrow> (real \<Rightarrow> string) \<Rightarrow> DurationAssertion \<Rightarrow> 'v BaseAssertion" where
  "DurationAssertion_obj fmt fmt2 self =
     \<lparr>check = DurationAssertion_check fmt fmt2 self,
      description = DurationAssertion_description fmt self\<rparr>"

text \<open>
  \<open>CompositeAssertion\<close>. The constructor rejects every operator but \<open>"and"\<close> and \<open>"or"\<close>;
  \<open>check\<close> takes the \<open>else\<close> branch for whatever is not \<open>"and"\<close>.
\<close>

record 'v CompositeAssertion =
  p_assertions :: "'v BaseAssertion list"
  p_operator :: string

definition CompositeAssertion_init ::
  "'v BaseAssertion list \<Rightarrow> string \<Rightarrow> exn + 'v CompositeAssertion" where
  "CompositeAssertion_init assertions operator =
     (if operator \<noteq> ''and'' \<and> operator \<noteq> ''or'' then
        Inl (ValueError
          (''Invalid operator: '' @ operator @ ''. Must be '' @ sq @ ''and'' @ sq @ '' or ''
           @ sq @ ''or'' @ sq))
      else Inr \<lparr>p_assertions = assertions, p_operator = operator\<rparr>)"

definition CompositeAssertion_check ::
  "'v CompositeAssertion \<Rightarrow> 'v ToolCallResult \<Rightarrow> AssertionResult" where
  "CompositeAssertion_check self res =
     (let results = map (\<lambda>a. check a res) (p_assertions self);
          n = str_nat (length (p_assertions self))
      in if p_operator self = ''and'' then
           (let all_passed = list_all passed results;
                failed = filter (\<lambda>r. \<not> passed r) results
            in \<lparr>passed = all_passed,
                message =
                  (if all_passed then ''All '' @ n @ '' assertions passed''
                   else str_nat (length failed) @ '' assertion(s) failed:'' @ nl
                        @ str_join nl (map (\<lambda>r. ''- '' @ message r) failed)),
                expected = None, actual = None, details = None\<rparr>)
         else
           (let any_passed = list_ex passed results
            in \<lparr>passed = any_passed,
                message =
                  (if any_passed then
                     str_nat (length (filter passed results)) @ '' of '' @ n
                     @ '' assertions passed''
                   else ''None of '' @ n @ '' assertions passed:'' @ nl
                        @ str_join nl (map (\<lambda>r. ''- '' @ message r) results)),
                expected = None, actual = None, details = None\<rparr>))"

text \<open>\<open>str.upper\<close> on the letters a to z, which is all an accepted operator contains.\<close>

definition upper_char :: "char \<Rightarrow> char" where
  "upper_char c =
     (let k = (of_char c :: nat) in if 97 \<le> k \<and> k \<le> 122 then char_of (k - 32) else c)"

definition CompositeAssertion_description :: "'v CompositeAssertion \<Rightarrow> string" where
  "CompositeAssertion_description self =
     (let descs = map description (p_assertions self);
          joiner = '' '' @ map upper_char (p_operator self) @ '' ''
      in ''('' @ str_join joiner descs @ '')'')"

definition CompositeAssertion_obj :: "'v CompositeAssertion \<Rightarrow> 'v BaseAssertion" where
  "CompositeAssertion_obj self =
     \<lparr>check = CompositeAssertion_check self,
      description = CompositeAssertion_description self\<rparr>"

section \<open>The tool caller\<close>

text \<open>
  \<open>ToolCaller\<close> reaches its session through the reference \<open>_session\<close>. What
  \<open>self._session.call_tool(tool_name, arguments, effective_timeout)\<close> does at one call
  is the argument \<open>session_call_tool\<close> of that call: it returns a result or raises; for
  an \<open>MCPClientSession\<close> it is \<open>call_tool\<close> above at the session's state and the call's
  event. The two readings of \<open>time.perf_counter\<close> are arguments as well. The file
  tracker is used by none of the methods and has no field.
\<close>

record 'v ToolCaller =
  p_default_timeout :: real
  p_call_history :: "'v ToolCallResult list"

definition ToolCaller_init :: "real \<Rightarrow> 'v ToolCaller" where
  "ToolCaller_init default_timeout0 =
     \<lparr>p_default_timeout = default_timeout0, p_call_history = []\<rparr>"

definition call_history :: "'v ToolCaller \<Rightarrow> 'v ToolCallResult list" where
  "call_history self = p_call_history self"

text \<open>The loop of \<open>_extract_error_message\<close>, after the test for an empty content list.\<close>

fun first_text :: "content list \<Rightarrow> string" where
  "first_text [] = ''Unknown error''"
| "first_text (TextContent t # cs) = t"
| "first_text (TextAttr t # cs) = t"
| "first_text (NoText # cs) = first_text cs"

definition extract_error_message :: "CallToolResult \<Rightarrow> string" where
  "extract_error_message res =
     (if content res = [] then ''Unknown error'' else first_text (content res))"

type_synonym 'v session_call =
  "string \<Rightarrow> (string \<times> 'v) list \<Rightarrow> real \<Rightarrow> exn + CallToolResult"

definition call ::
  "'v ToolCaller \<Rightarrow> 'v session_call \<Rightarrow> real \<Rightarrow> real \<Rightarrow> string \<Rightarrow> (string \<times> 'v) list option
     \<Rightarrow> real option \<Rightarrow> bool \<Rightarrow> 'v ToolCallResult \<times> 'v ToolCaller" where
  "call self session_call_tool start_time end_time tool_name arguments0 timeout expect_error =
     (let args1 = (case arguments0 of None \<Rightarrow> [] | Some a \<Rightarrow> a);
          effective_timeout = (case timeout of Some t \<Rightarrow> t | None \<Rightarrow> p_default_timeout self);
          duration = end_time - start_time;
          (res, succ, msg) =
            (case session_call_tool tool_name args1 effective_timeout of
               Inr res \<Rightarrow>
                 (let is_err = has_isError res
                  in if expect_error then
                       (res, is_err,
                        if \<not> is_err then Some ''Expected error but tool succeeded'' else None)
                     else
                       (res, \<not> is_err,
                        if is_err then Some (extract_error_message res) else None))
             | Inl (TimeoutError m) \<Rightarrow>
                 (\<lparr>content = [], isError = Some True\<rparr>, expect_error, Some m)
             | Inl e \<Rightarrow>
                 (\<lparr>content = [], isError = Some True\<rparr>, expect_error,
                  Some (''Tool call failed: '' @ str_exn e)));
          call_result = ToolCallResult_init tool_name args1 res duration succ msg
      in (call_result, self\<lparr>p_call_history := p_call_history self @ [call_result]\<rparr>))"

text \<open>The loop of \<open>call_and_assert\<close> that appends to \<open>failed_assertions\<close>.\<close>

fun collect_failed ::
  "'v BaseAssertion list \<Rightarrow> 'v ToolCallResult \<Rightarrow> string list \<Rightarrow> string list" where
  "collect_failed [] res failed_assertions = failed_assertions"
| "collect_failed (assertion # rest) res failed_assertions =
     (let assertion_result = check assertion res
      in if \<not> passed assertion_result then
           collect_failed rest res
             (failed_assertions
              @ [''- '' @ description assertion @ '': '' @ message assertion_result])
         else collect_failed rest res failed_assertions)"

definition call_and_assert ::
  "'v ToolCaller \<Rightarrow> 'v session_call \<Rightarrow> real \<Rightarrow> real \<Rightarrow> string \<Rightarrow> (string \<times> 'v) list option
     \<Rightarrow> 'v BaseAssertion list option \<Rightarrow> real option
     \<Rightarrow> (exn + 'v ToolCallResult) \<times> 'v ToolCaller" where
  "call_and_assert self session_call_tool start_time end_time tool_name arguments0 assertions
       timeout =
     (let (res, self1) =
            call self session_call_tool start_time end_time tool_name arguments0 timeout False
      in case assertions of
           None \<Rightarrow> (Inr res, self1)
         | Some asserts \<Rightarrow>
             if asserts = [] then (Inr res, self1)
             else (let failed_assertions = collect_failed asserts res []
                   in if failed_assertions \<noteq> [] then
                        (Inl (AssertionError
                           (''Tool call '' @ sq @ tool_name @ sq @ '' failed assertions:'' @ nl
                            @ str_join nl failed_assertions)), self1)
                      else (Inr res, self1)))"

text \<open>
  \<open>list_tools\<close> maps the session's tools to their names or passes the session's
  exception on. \<open>wait_for_condition\<close> polls until the timeout; the argument is the list of
  what the condition did at each poll that fell before the timeout.
\<close>

datatype Tool = Tool (name_of: string) (description_of: "string option")

definition list_tools :: "exn + Tool list \<Rightarrow> exn + string list" where
  "list_tools session_list_tools =
     (case session_list_tools of Inl e \<Rightarrow> Inl e | Inr tools \<Rightarrow> Inr (map name_of tools))"

fun wait_for_condition :: "(exn + bool) list \<Rightarrow> bool" where
  "wait_for_condition [] = False"
| "wait_for_condition (Inr True # polls) = True"
| "wait_for_condition (p # polls) = wait_for_condition polls"

definition clear_history :: "'v ToolCaller \<Rightarrow> 'v ToolCaller" where
  "clear_history self = self\<lparr>p_call_history := []\<rparr>"

definition get_last_call :: "'v ToolCaller \<Rightarrow> 'v ToolCallResult option" where
  "get_last_call self =
     (if p_call_history self \<noteq> [] then Some (last (p_call_history self)) else None)"

definition get_calls_for_tool :: "'v ToolCaller \<Rightarrow> string \<Rightarrow> 'v ToolCallResult list" where
  "get_calls_for_tool self tool_name = filter (\<lambda>c. name c = tool_name) (p_call_history self)"

text \<open>
  The operations of a \<open>ToolCaller\<close>, each with the inputs it takes from its caller and
  from the environment, and the state of the caller after each.
\<close>

datatype 'v op =
    Call "'v session_call" real real string "(string \<times> 'v) list option" "real option" bool
  | CallAndAssert "'v session_call" real real string "(string \<times> 'v) list option"
      "'v BaseAssertion list option" "real option"
  | ListTools "exn + Tool list"
  | WaitForCondition "(exn + bool) list"
  | CallHistory
  | GetLastCall
  | GetCallsForTool string
  | ClearHistory

fun perform :: "'v op \<Rightarrow> 'v ToolCaller \<Rightarrow> 'v ToolCaller" where
  "perform (Call s t0 t1 n a t e) self = snd (call self s t0 t1 n a t e)"
| "perform (CallAndAssert s t0 t1 n a asserts t) self =
     snd (call_and_assert self s t0 t1 n a asserts t)"
| "perform (ListTools r) self = self"
| "perform (WaitForCondition polls) self = self"
| "perform CallHistory self = self"
| "perform GetLastCall self = self"
| "perform (GetCallsForTool n) self = self"
| "perform ClearHistory self = clear_history self"

fun run :: "'v op list \<Rightarrow> 'v ToolCaller \<Rightarrow> 'v ToolCaller" where
  "run [] self = self"
| "run (x # xs) self = run xs (perform x self)"

text \<open>The tool names of the calls among the operations, in order.\<close>

fun called_tools :: "'v op list \<Rightarrow> string list" where
  "called_tools [] = []"
| "called_tools (Call s t0 t1 n a t e # xs) = n # called_tools xs"
| "called_tools (CallAndAssert s t0 t1 n a asserts t # xs) = n # called_tools xs"
| "called_tools (x # xs) = called_tools xs"

fun is_clear :: "'v op \<Rightarrow> bool" where
  "is_clear ClearHistory = True"
| "is_clear x = False"

section \<open>Notions used to state the properties\<close>

text \<open>
  The text of a text-bearing content block, and the texts of all text-bearing blocks of a
  content list in block order.
\<close>

fun block_text :: "content \<Rightarrow> string option" where
  "block_text (TextContent t) = Some t"
| "block_text (TextAttr t) = Some t"
| "block_text NoText = None"

definition block_texts :: "content list \<Rightarrow> string list" where
  "block_texts cs = List.map_filter block_text cs"

text \<open>
  A pattern compiler for the examples: a pattern without metacharacters, compiled with
  \<open>re.IGNORECASE\<close>, is found in a text exactly where it occurs as a substring, letter case
  aside.
\<close>

definition lower_char :: "char \<Rightarrow> char" where
  "lower_char c =
     (let k = (of_char c :: nat) in if 65 \<le> k \<and> k \<le> 90 then char_of (k + 32) else c)"

definition literal_compile :: "string \<Rightarrow> exn + Pattern" where
  "literal_compile p = Inr (\<lambda>text. sublist (map lower_char p) (map lower_char text))"

text \<open>A configured server and a connected session for the examples.\<close>

definition demo_server :: ServerConfig where
  "demo_server =
     \<lparr>ServerConfig.name = ''demo'', command = ''python'', args = [''server.py''], env = [],
      cwd = None, startup_timeout = 30, shutdown_timeout = 10\<rparr>"

definition demo_session :: MCPClientSession where
  "demo_session =
     snd (connect (\<lambda>x. ''30.0'') (MCPClientSession_init demo_server False) ConnectOk Closed)"


text \<open>
  The \<open>(name, exception)\<close> pairs of the \<open>start_server\<close> tasks that raised, in task order.
\<close>

definition failed_starts :: "string list \<Rightarrow> (exn + addr) list \<Rightarrow> (string \<times> exn) list" where
  "failed_starts names results =
     concat (map (\<lambda>(n, r). case r of Inl e \<Rightarrow> [(n, e)] | Inr a \<Rightarrow> []) (zip names results))"

text \<open>
  Two invariants of the manager and the store. \<open>registry_allocated\<close>: every address in
  the registry is that of an object in the store. \<open>settled self st A\<close>: every address of
  \<open>A\<close> is allocated, and its session is registered or not connected.
\<close>

definition registry_allocated :: "MCPServerManager \<Rightarrow> store \<Rightarrow> bool" where
  "registry_allocated self st = (\<forall>a \<in> snd ` set (p_sessions self). a < length st)"

definition settled :: "MCPServerManager \<Rightarrow> store \<Rightarrow> addr set \<Rightarrow> bool" where
  "settled self st A =
     (\<forall>a \<in> A. a < length st \<and> (a \<in> snd ` set (p_sessions self) \<or> \<not> is_connected (st ! a)))"

text \<open>
  Three configured servers for the examples; connecting to the second raises, and the
  shutdown of the first exceeds its deadline.
\<close>

definition demo_config :: MCPTestConfig where
  "demo_config =
     \<lparr>servers = [demo_server\<lparr>ServerConfig.name := ''a''\<rparr>,
                 demo_server\<lparr>ServerConfig.name := ''b''\<rparr>,
                 demo_server\<lparr>ServerConfig.name := ''c''\<rparr>],
      default_timeout = 30, log_level = ''INFO'', log_mcp_messages = True,
      cleanup_on_failure = True, parallel_servers = True\<rparr>"

definition demo_connects :: "nat \<Rightarrow> connect_event \<times> aclose_event" where
  "demo_connects i =
     (if i = 1 then (ConnectRaised EnterSession ''spawn failed'', Closed)
      else (ConnectOk, Closed))"

definition demo_disconnects :: "string \<Rightarrow> deadline_event \<times> aclose_event" where
  "demo_disconnects n =
     (if n = ''a'' then (DeadlineExpired, CloseRaised ''stuck'') else (InTime Closed, Closed))"

section \<open>Strings and content blocks\<close>

lemma block_texts_simps [simp]:
  "block_texts [] = []"
  "block_texts (TextContent t # cs) = t # block_texts cs"
  "block_texts (TextAttr t # cs) = t # block_texts cs"
  "block_texts (NoText # cs) = block_texts cs"
  by (simp_all add: block_texts_def List.map_filter_simps)

lemma append_texts_block_texts: "append_texts cs texts = texts @ block_texts cs"
proof (induction cs arbitrary: texts)
  case Nil
  show ?case by simp
next
  case (Cons c cs)
  show ?case by (cases c) (simp_all add: Cons.IH)
qed

lemma text_content_fresh:
  "fst (text_content (ToolCallResult_init n a r d s m)) = str_join nl (block_texts (content r))"
  by (simp add: text_content_def ToolCallResult_init_def append_texts_block_texts Let_def)

lemma text_content_again:
  "fst (text_content (snd (text_content out))) = fst (text_content out)"
  by (simp add: text_content_def Let_def split: option.splits)

lemma first_text_block_texts:
  "first_text cs = (case block_texts cs of [] \<Rightarrow> ''Unknown error'' | t # ts \<Rightarrow> t)"
proof (induction cs)
  case Nil
  show ?case by simp
next
  case (Cons c cs)
  then show ?case by (cases c) simp_all
qed

lemma extract_error_message_block_texts:
  "extract_error_message r =
     (case block_texts (content r) of [] \<Rightarrow> ''Unknown error'' | t # ts \<Rightarrow> t)"
  by (simp add: extract_error_message_def first_text_block_texts)

lemma sublist_str_join:
  "x \<in> set xs \<Longrightarrow> sublist x (str_join sep xs)"
proof (induction sep xs rule: str_join.induct)
  case (1 sep)
  then show ?case by simp
next
  case (2 sep y)
  then show ?case by simp
next
  case (3 sep y z zs)
  show ?case
  proof (cases "x = y")
    case True
    then show ?thesis by simp
  next
    case False
    with "3.prems" have "x \<in> set (z # zs)" by simp
    then have "sublist x (str_join sep (z # zs))" by (rule "3.IH")
    then obtain ps ss where "str_join sep (z # zs) = ps @ x @ ss"
      by (auto simp: sublist_def)
    then have "str_join sep (y # z # zs) = (y @ sep @ ps) @ x @ ss" by simp
    then show ?thesis unfolding sublist_def by blast
  qed
qed

lemma sublist_after: "sublist x ys \<Longrightarrow> sublist x (pre @ ys)"
  by (metis sublist_order.order_trans sublist_append_leftI)

section \<open>Properties of \<open>ToolCaller.call\<close>\<close>

lemma call_returns:
  "call self (\<lambda>n a t. Inr r) t0 t1 tool args0 timeout ee =
     (let out = ToolCallResult_init tool (case args0 of None \<Rightarrow> [] | Some a \<Rightarrow> a) r (t1 - t0)
                  (if ee then has_isError r else \<not> has_isError r)
                  (if ee then (if has_isError r then None
                               else Some ''Expected error but tool succeeded'')
                   else (if has_isError r then Some (extract_error_message r) else None))
      in (out, self\<lparr>p_call_history := p_call_history self @ [out]\<rparr>))"
  by (simp add: call_def Let_def)

lemma call_appends:
  "p_call_history (snd (call self s t0 t1 tool args0 timeout ee))
     = p_call_history self @ [fst (call self s t0 t1 tool args0 timeout ee)]"
  by (simp add: call_def Let_def split: sum.splits exn.splits prod.splits)

lemma call_name: "name (fst (call self s t0 t1 tool args0 timeout ee)) = tool"
  by (simp add: call_def Let_def ToolCallResult_init_def
        split: sum.splits exn.splits prod.splits)

lemma call_and_assert_state:
  "snd (call_and_assert self s t0 t1 tool args0 asserts timeout)
     = snd (call self s t0 t1 tool args0 timeout False)"
  by (simp add: call_and_assert_def Let_def split: prod.splits option.splits)

lemmas session_defs = demo_server_def demo_session_def connect_def MCPClientSession_init_def
  is_connected_def call_tool_def ensure_connected_def session_name_def sq_def

lemmas call_eval = call_def ToolCaller_init_def ToolCallResult_init_def Let_def
  has_isError_def extract_error_message_def

text \<open>
  C1. When the session's \<open>call_tool\<close> raises, a timeout or any other exception, \<open>call\<close>
  raises nothing: it returns an outcome whose \<open>success\<close> equals \<open>expect_error\<close>, whose
  \<open>error_message\<close> is the text of the timeout, or \<open>"Tool call failed: "\<close> followed by the
  text of the other exception, and the outcome is the last entry of the history when
  \<open>call\<close> returns. That \<open>call\<close> returns is its type: it has no exceptional result.
\<close>

theorem call_captures_exceptions:
  assumes "s tool (case args0 of None \<Rightarrow> [] | Some a \<Rightarrow> a)
             (case timeout of Some t \<Rightarrow> t | None \<Rightarrow> p_default_timeout self) = Inl e"
  shows "(case call self s t0 t1 tool args0 timeout expect_error of
            (out, self') \<Rightarrow>
              success out = expect_error
              \<and> error_message out =
                   Some (case e of TimeoutError m \<Rightarrow> m
                         | _ \<Rightarrow> ''Tool call failed: '' @ str_exn e)
              \<and> name out = tool
              \<and> p_call_history self' = p_call_history self @ [out])"
  using assms by (cases e) (simp_all add: call_def Let_def ToolCallResult_init_def)

text \<open>
  An instance: a connected session whose protocol call exceeds its deadline, called with
  \<open>expect_error = True\<close>.
\<close>

theorem call_captures_exceptions_witness:
  "(\<lambda>n a t. call_tool (\<lambda>x. ''30.0'') demo_session ToolExpired n (Some a) (Some t))
      ''slow'' ([] :: (string \<times> unit) list) 30
     = Inl (TimeoutError (''Tool call '' @ sq @ ''slow'' @ sq @ '' timed out after 30.0s''))
   \<and> (case call (ToolCaller_init 30)
             (\<lambda>n a t. call_tool (\<lambda>x. ''30.0'') demo_session ToolExpired n (Some a) (Some t))
             0 30 ''slow'' None None True of
         (out, self') \<Rightarrow>
           success out = True
           \<and> error_message out
               = Some (''Tool call '' @ sq @ ''slow'' @ sq @ '' timed out after 30.0s'')
           \<and> name out = ''slow''
           \<and> p_call_history self' = [out])"
  using call_captures_exceptions
    [where s = "\<lambda>n a t. call_tool (\<lambda>x. ''30.0'') demo_session ToolExpired n (Some a) (Some t)"
      and tool = "''slow''" and ?args0.0 = "None :: (string \<times> unit) list option"
      and timeout = None and self = "ToolCaller_init 30"
      and e = "TimeoutError (''Tool call '' @ sq @ ''slow'' @ sq @ '' timed out after 30.0s'')"
      and ?t0.0 = 0 and ?t1.0 = 30 and expect_error = True]
  by (simp add: session_defs call_eval)

text \<open>
  C3. When the session's \<open>call_tool\<close> returns a result \<open>r\<close>: with \<open>expect_error = True\<close> the
  outcome's \<open>success\<close> is the result's error flag, and a result without the flag set gives
  the message \<open>"Expected error but tool succeeded"\<close>; with \<open>expect_error = False\<close> the
  outcome's \<open>success\<close> is the negation of the flag, and a result with the flag set gives
  the text of the first text-bearing content block, or \<open>"Unknown error"\<close> when there is
  none.
\<close>

theorem call_classifies_result:
  assumes "s tool (case args0 of None \<Rightarrow> [] | Some a \<Rightarrow> a)
             (case timeout of Some t \<Rightarrow> t | None \<Rightarrow> p_default_timeout self) = Inr r"
  shows "(let expecting = fst (call self s t0 t1 tool args0 timeout True);
              plain = fst (call self s t0 t1 tool args0 timeout False)
          in success expecting = has_isError r
             \<and> (\<not> has_isError r \<longrightarrow>
                  error_message expecting = Some ''Expected error but tool succeeded'')
             \<and> success plain = (\<not> has_isError r)
             \<and> (has_isError r \<longrightarrow>
                  error_message plain =
                    Some (case block_texts (content r) of
                            [] \<Rightarrow> ''Unknown error'' | t # ts \<Rightarrow> t)))"
  using assms
  by (simp add: call_def Let_def ToolCallResult_init_def extract_error_message_block_texts)

text \<open>An instance with a tool that reports an error and one with a tool that succeeds.\<close>

theorem call_classifies_result_witness:
  "(let failing = (\<lambda>n a t. Inr \<lparr>content = [NoText, TextContent ''boom'', TextContent ''more''],
                                   isError = Some True\<rparr>) :: unit session_call;
        passing = (\<lambda>n a t. Inr \<lparr>content = [TextContent ''8''], isError = Some False\<rparr>)
                    :: unit session_call;
        self = ToolCaller_init 30
    in success (fst (call self failing 0 1 ''fail'' None None True))
       \<and> \<not> success (fst (call self failing 0 1 ''fail'' None None False))
       \<and> error_message (fst (call self failing 0 1 ''fail'' None None False)) = Some ''boom''
       \<and> \<not> success (fst (call self passing 0 1 ''add'' None None True))
       \<and> error_message (fst (call self passing 0 1 ''add'' None None True))
           = Some ''Expected error but tool succeeded''
       \<and> success (fst (call self passing 0 1 ''add'' None None False)))"
  using call_classifies_result
    [where s = "(\<lambda>n a t. Inr \<lparr>content = [NoText, TextContent ''boom'', TextContent ''more''],
                                 isError = Some True\<rparr>) :: unit session_call"
      and tool = "''fail''" and ?args0.0 = None and timeout = None
      and self = "ToolCaller_init 30"
      and r = "\<lparr>content = [NoText, TextContent ''boom'', TextContent ''more''],
                isError = Some True\<rparr>"
      and ?t0.0 = 0 and ?t1.0 = 1]
    call_classifies_result
    [where s = "(\<lambda>n a t. Inr \<lparr>content = [TextContent ''8''], isError = Some False\<rparr>)
                  :: unit session_call"
      and tool = "''add''" and ?args0.0 = None and timeout = None
      and self = "ToolCaller_init 30"
      and r = "\<lparr>content = [TextContent ''8''], isError = Some False\<rparr>"
      and ?t0.0 = 0 and ?t1.0 = 1]
  by (simp add: Let_def has_isError_def)

section \<open>The call history\<close>

lemma perform_history:
  "\<not> is_clear x \<Longrightarrow>
     \<exists>new. p_call_history (perform x self) = p_call_history self @ new
           \<and> map name new = called_tools [x]"
proof (cases x)
  case (Call s t0 t1 n a t e)
  then show ?thesis by (simp add: call_appends call_name)
next
  case (CallAndAssert s t0 t1 n a asserts t)
  then show ?thesis by (simp add: call_and_assert_state call_appends call_name)
qed simp_all

lemma called_tools_Cons: "called_tools (x # xs) = called_tools [x] @ called_tools xs"
  by (cases x) simp_all

lemma run_history:
  "\<not> list_ex is_clear xs \<Longrightarrow>
     \<exists>new. p_call_history (run xs self) = p_call_history self @ new
           \<and> map name new = called_tools xs"
proof (induction xs arbitrary: self)
  case Nil
  show ?case by simp
next
  case (Cons x xs)
  from Cons.prems have nx: "\<not> is_clear x" and nxs: "\<not> list_ex is_clear xs" by simp_all
  from perform_history[OF nx] obtain new1 where
    h1: "p_call_history (perform x self) = p_call_history self @ new1"
    and n1: "map name new1 = called_tools [x]" by blast
  from Cons.IH[OF nxs, of "perform x self"] obtain new2 where
    h2: "p_call_history (run xs (perform x self)) = p_call_history (perform x self) @ new2"
    and n2: "map name new2 = called_tools xs" by blast
  have "p_call_history (run (x # xs) self) = p_call_history self @ (new1 @ new2)"
    using h1 h2 by simp
  moreover have "map name (new1 @ new2) = called_tools (x # xs)"
    using n1 n2 called_tools_Cons[of x xs] by simp
  ultimately show ?case by blast
qed

text \<open>
  C4. Let a sequence of operations on one \<open>ToolCaller\<close> contain no \<open>clear_history\<close>. The
  entries that were in the history stay where they were, and after them comes one entry
  per call (\<open>call\<close> or \<open>call_and_assert\<close>), in call order, carrying the call's tool name.
  On a new \<open>ToolCaller\<close> the history therefore has as many entries as there were calls,
  and its \<open>i\<close>-th entry has the \<open>i\<close>-th call's tool name.
\<close>

theorem history_in_call_order:
  assumes "\<not> list_ex is_clear xs"
  shows "take (length (p_call_history self)) (p_call_history (run xs self)) = p_call_history self
         \<and> map name (drop (length (p_call_history self)) (p_call_history (run xs self)))
             = called_tools xs
         \<and> length (call_history (run xs (ToolCaller_init d))) = length (called_tools xs)
         \<and> (\<forall>i < length (called_tools xs).
               name (call_history (run xs (ToolCaller_init d)) ! i) = called_tools xs ! i)"
proof -
  from run_history[OF assms, of self] obtain new where
    h: "p_call_history (run xs self) = p_call_history self @ new"
    and n: "map name new = called_tools xs" by blast
  from run_history[OF assms, of "ToolCaller_init d"] obtain new0 where
    h0: "p_call_history (run xs (ToolCaller_init d)) = new0"
    and n0: "map name new0 = called_tools xs" by (auto simp: ToolCaller_init_def)
  have len: "length new0 = length (called_tools xs)" using n0 by (metis length_map)
  have nth: "\<forall>i < length (called_tools xs). name (new0 ! i) = called_tools xs ! i"
    using n0 len by (metis nth_map)
  show ?thesis using h n h0 len nth by (simp add: call_history_def)
qed

text \<open>
  An instance: three calls, one of them through \<open>call_and_assert\<close> with a failing
  assertion, mixed with the operations that only read.
\<close>

theorem history_in_call_order_witness:
  "(let ok = (\<lambda>n a t. Inr \<lparr>content = [TextContent ''8''], isError = Some False\<rparr>)
               :: unit session_call;
        down = (\<lambda>n a t. Inl (ConnectionError ''not connected'')) :: unit session_call;
        ops = [Call ok 0 1 ''add'' None None False,
               GetLastCall,
               CallAndAssert down 1 2 ''fail'' None (Some [SuccessAssertion]) None,
               ListTools (Inr [Tool ''add'' None, Tool ''fail'' None]),
               Call ok 2 3 ''add'' None (Some 5) True,
               GetCallsForTool ''add'',
               WaitForCondition [Inr False, Inl (ValueError ''x''), Inr True],
               CallHistory]
    in \<not> list_ex is_clear ops
       \<and> called_tools ops = [''add'', ''fail'', ''add'']
       \<and> length (call_history (run ops (ToolCaller_init 30))) = 3
       \<and> map name (call_history (run ops (ToolCaller_init 30))) = [''add'', ''fail'', ''add''])"
proof -
  define ok where
    "ok = ((\<lambda>n a t. Inr \<lparr>content = [TextContent ''8''], isError = Some False\<rparr>)
             :: unit session_call)"
  define down where
    "down = ((\<lambda>n a t. Inl (ConnectionError ''not connected'')) :: unit session_call)"
  define ops where
    "ops = [Call ok 0 1 ''add'' None None False,
            GetLastCall,
            CallAndAssert down 1 2 ''fail'' None (Some [SuccessAssertion]) None,
            ListTools (Inr [Tool ''add'' None, Tool ''fail'' None]),
            Call ok 2 3 ''add'' None (Some 5) True,
            GetCallsForTool ''add'',
            WaitForCondition [Inr False, Inl (ValueError ''x''), Inr True],
            CallHistory]"
  have h: "\<not> list_ex is_clear ops" by (simp add: ops_def)
  have t: "called_tools ops = [''add'', ''fail'', ''add'']" by (simp add: ops_def)
  note c = history_in_call_order[OF h, of "ToolCaller_init 30" 30]
  have l: "length (call_history (run ops (ToolCaller_init 30))) = 3" using c t by simp
  have "map name (drop (length (p_call_history (ToolCaller_init 30 :: unit ToolCaller)))
          (p_call_history (run ops (ToolCaller_init 30)))) = called_tools ops"
    using c by blast
  then have m:
    "map name (call_history (run ops (ToolCaller_init 30))) = [''add'', ''fail'', ''add'']"
    using t by (simp add: ToolCaller_init_def call_history_def)
  show ?thesis using h t l m by (simp add: ok_def down_def ops_def Let_def)
qed

section \<open>\<open>call_and_assert\<close>\<close>

lemma collect_failed_eq:
  "collect_failed asserts out acc =
     acc @ map (\<lambda>a. ''- '' @ description a @ '': '' @ message (check a out))
             (filter (\<lambda>a. \<not> passed (check a out)) asserts)"
  by (induction asserts arbitrary: acc) (simp_all add: Let_def)

lemma call_and_assert_cases:
  assumes "call self s t0 t1 tool args0 timeout False = (out, self1)"
    and "failing = filter (\<lambda>a. \<not> passed (check a out))
                     (case asserts of None \<Rightarrow> [] | Some l \<Rightarrow> l)"
    and "text = ''Tool call '' @ sq @ tool @ sq @ '' failed assertions:'' @ nl
                @ str_join nl
                    (map (\<lambda>a. ''- '' @ description a @ '': '' @ message (check a out)) failing)"
  shows "call_and_assert self s t0 t1 tool args0 asserts timeout =
           (if failing = [] then Inr out else Inl (AssertionError text), self1)
         \<and> (failing = [] \<longleftrightarrow>
               list_all (\<lambda>a. passed (check a out)) (case asserts of None \<Rightarrow> [] | Some l \<Rightarrow> l))
         \<and> (\<forall>a \<in> set (case asserts of None \<Rightarrow> [] | Some l \<Rightarrow> l).
               \<not> passed (check a out) \<longrightarrow>
                 sublist (''- '' @ description a @ '': '' @ message (check a out)) text)"
proof (intro conjI)
  show "call_and_assert self s t0 t1 tool args0 asserts timeout =
           (if failing = [] then Inr out else Inl (AssertionError text), self1)"
    using assms by (cases asserts) (auto simp: call_and_assert_def Let_def collect_failed_eq)
  show "failing = [] \<longleftrightarrow>
          list_all (\<lambda>a. passed (check a out)) (case asserts of None \<Rightarrow> [] | Some l \<Rightarrow> l)"
    using assms(2) by (simp add: filter_empty_conv list_all_iff)
  show "\<forall>a \<in> set (case asserts of None \<Rightarrow> [] | Some l \<Rightarrow> l).
          \<not> passed (check a out) \<longrightarrow>
            sublist (''- '' @ description a @ '': '' @ message (check a out)) text"
  proof (intro ballI impI)
    fix a
    assume a: "a \<in> set (case asserts of None \<Rightarrow> [] | Some l \<Rightarrow> l)"
      and f: "\<not> passed (check a out)"
    let ?line = "\<lambda>a. ''- '' @ description a @ '': '' @ message (check a out)"
    from a f have "a \<in> set failing" using assms(2) by simp
    then have "?line a \<in> set (map ?line failing)" by simp
    then have "sublist (?line a) (str_join nl (map ?line failing))"
      by (rule sublist_str_join)
    then have "sublist (?line a)
        ((''Tool call '' @ sq @ tool @ sq @ '' failed assertions:'' @ nl)
         @ str_join nl (map ?line failing))"
      by (rule sublist_after)
    then show "sublist (?line a) text" using assms(3) by simp
  qed
qed

text \<open>
  C5. \<open>call_and_assert\<close> makes the call with \<open>expect_error = False\<close> and checks every
  assertion of the list against the outcome. It raises one \<open>AssertionError\<close> exactly when
  some assertion fails; the error's text has, after its heading, one line
  \<open>"- description: message"\<close> for each failing assertion, all of them and in list order,
  so no failure after the first is left out. When none fails (or no list is given) it
  returns the outcome of the call. In both cases the caller's state is the one the call
  left.
\<close>

theorem call_and_assert_aggregates:
  assumes "call self s t0 t1 tool args0 timeout False = (out, self1)"
  shows "(let asserts_list = (case asserts of None \<Rightarrow> [] | Some l \<Rightarrow> l);
              failing = filter (\<lambda>a. \<not> passed (check a out)) asserts_list;
              line = (\<lambda>a. ''- '' @ description a @ '': '' @ message (check a out));
              text = ''Tool call '' @ sq @ tool @ sq @ '' failed assertions:'' @ nl
                     @ str_join nl (map line failing)
          in call_and_assert self s t0 t1 tool args0 asserts timeout =
               (if failing = [] then Inr out else Inl (AssertionError text), self1)
             \<and> (failing = [] \<longleftrightarrow> list_all (\<lambda>a. passed (check a out)) asserts_list)
             \<and> (\<forall>a \<in> set asserts_list.
                   \<not> passed (check a out) \<longrightarrow> sublist (line a) text))"
  using call_and_assert_cases[OF assms refl refl, of asserts] by (simp add: Let_def)

lemmas assert_defs = SuccessAssertion_def SuccessAssertion_check_def
  DurationAssertion_obj_def DurationAssertion_check_def DurationAssertion_description_def
  ErrorAssertion_obj_def ErrorAssertion_check_def ErrorAssertion_description_def

text \<open>
  An instance: a tool that reports an error after one second, checked by an assertion
  that fails, one that passes and a second one that fails; and the same call checked by
  the passing assertion alone.
\<close>

theorem call_and_assert_aggregates_witness:
  "(let s = (\<lambda>n a t. Inr \<lparr>content = [TextContent ''boom''], isError = Some True\<rparr>)
              :: unit session_call;
        asserts = [SuccessAssertion,
                   ErrorAssertion_obj \<lparr>p_pattern = None, p_pattern_str = None\<rparr>,
                   DurationAssertion_obj (\<lambda>x. ''0.5'') (\<lambda>x. ''1.00'')
                     \<lparr>p_max_seconds = 1 / 2, p_min_seconds = None\<rparr>];
        self = ToolCaller_init 30
    in call self s 0 1 ''fail'' None None False
         = (fst (call self s 0 1 ''fail'' None None False),
            snd (call self s 0 1 ''fail'' None None False))
       \<and> call_and_assert self s 0 1 ''fail'' None (Some asserts) None
           = (Inl (AssertionError
                (''Tool call '' @ sq @ ''fail'' @ sq @ '' failed assertions:'' @ nl
                 @ ''- Tool call succeeds: Tool call should succeed'' @ nl
                 @ ''- Duration <= 0.5s: Tool call should complete within 0.5s'')),
              snd (call self s 0 1 ''fail'' None None False))
       \<and> call_and_assert self s 0 1 ''fail'' None (Some [asserts ! 1]) None
           = (Inr (fst (call self s 0 1 ''fail'' None None False)),
              snd (call self s 0 1 ''fail'' None None False)))"
proof -
  define s where
    "s = ((\<lambda>n a t. Inr \<lparr>content = [TextContent ''boom''], isError = Some True\<rparr>)
            :: unit session_call)"
  define asserts where
    "asserts = [SuccessAssertion :: unit BaseAssertion,
                ErrorAssertion_obj \<lparr>p_pattern = None, p_pattern_str = None\<rparr>,
                DurationAssertion_obj (\<lambda>x. ''0.5'') (\<lambda>x. ''1.00'')
                  \<lparr>p_max_seconds = 1 / 2, p_min_seconds = None\<rparr>]"
  define self where "self = (ToolCaller_init 30 :: unit ToolCaller)"
  have h: "call self s 0 1 ''fail'' None None False
         = (fst (call self s 0 1 ''fail'' None None False),
            snd (call self s 0 1 ''fail'' None None False))" by simp
  have o: "fst (call self s 0 1 ''fail'' None None False)
         = ToolCallResult_init ''fail'' []
             \<lparr>content = [TextContent ''boom''], isError = Some True\<rparr> 1 False (Some ''boom'')"
    by (simp add: s_def self_def call_eval)
  have a: "call_and_assert self s 0 1 ''fail'' None (Some asserts) None
           = (Inl (AssertionError
                (''Tool call '' @ sq @ ''fail'' @ sq @ '' failed assertions:'' @ nl
                 @ ''- Tool call succeeds: Tool call should succeed'' @ nl
                 @ ''- Duration <= 0.5s: Tool call should complete within 0.5s'')),
              snd (call self s 0 1 ''fail'' None None False))"
    using call_and_assert_aggregates[OF h, of "Some asserts"]
    by (simp add: o asserts_def assert_defs ToolCallResult_init_def Let_def)
  have b: "call_and_assert self s 0 1 ''fail'' None (Some [asserts ! 1]) None
           = (Inr (fst (call self s 0 1 ''fail'' None None False)),
              snd (call self s 0 1 ''fail'' None None False))"
    using call_and_assert_aggregates[OF h, of "Some [asserts ! 1]"]
    by (simp add: o asserts_def assert_defs ToolCallResult_init_def Let_def)
  show ?thesis using h a b by (simp add: s_def asserts_def self_def Let_def)
qed

section \<open>Composite assertions\<close>

lemma composite_and:
  assumes "p_operator c = ''and''"
  shows "passed (CompositeAssertion_check c out)
           = list_all (\<lambda>a. passed (check a out)) (p_assertions c)"
  using assms
  by (simp add: CompositeAssertion_check_def Let_def list_all_iff)

lemma composite_and_message:
  assumes "p_operator c = ''and''" and "\<not> passed (CompositeAssertion_check c out)"
  shows "message (CompositeAssertion_check c out) =
           str_nat (length (filter (\<lambda>a. \<not> passed (check a out)) (p_assertions c)))
           @ '' assertion(s) failed:'' @ nl
           @ str_join nl (map (\<lambda>a. ''- '' @ message (check a out))
                (filter (\<lambda>a. \<not> passed (check a out)) (p_assertions c)))"
proof -
  have "\<not> list_all passed (map (\<lambda>a. check a out) (p_assertions c))"
    using assms by (simp add: CompositeAssertion_check_def Let_def)
  then show ?thesis
    using assms(1)
    by (simp add: CompositeAssertion_check_def Let_def filter_map comp_def)
qed

lemma composite_or:
  assumes "p_operator c = ''or''"
  shows "passed (CompositeAssertion_check c out)
           = list_ex (\<lambda>a. passed (check a out)) (p_assertions c)"
  using assms
  by (simp add: CompositeAssertion_check_def Let_def list_ex_iff)

lemma composite_or_message:
  assumes "p_operator c = ''or''" and "\<not> passed (CompositeAssertion_check c out)"
  shows "message (CompositeAssertion_check c out) =
           ''None of '' @ str_nat (length (p_assertions c)) @ '' assertions passed:'' @ nl
           @ str_join nl (map (\<lambda>a. ''- '' @ message (check a out)) (p_assertions c))"
proof -
  have "\<not> list_ex passed (map (\<lambda>a. check a out) (p_assertions c))"
    using assms by (simp add: CompositeAssertion_check_def Let_def)
  then show ?thesis
    using assms(1)
    by (simp add: CompositeAssertion_check_def Let_def comp_def)
qed

lemma init_composite:
  assumes "CompositeAssertion_init asserts operator = Inr c"
  shows "p_assertions c = asserts" and "p_operator c = operator"
    and "operator = ''and'' \<or> operator = ''or''"
  using assms by (auto simp: CompositeAssertion_init_def split: if_splits)

text \<open>
  C6, as the code has it. For a composite assertion built by the constructor from a list
  of assertions and an operator: with \<open>"and"\<close> it passes exactly when every inner check
  passes, and when it fails its message is the count of failing inner checks followed by
  one line \<open>"- "\<close> plus the result message of each failing inner check, in list order;
  with \<open>"or"\<close> (the only other operator the constructor accepts) it passes exactly when
  some inner check passes, and when it fails its message has one such line for every
  inner check. The lines carry the \<open>message\<close> of the inner results; the \<open>description\<close> of
  the inner assertions is not part of the message.
\<close>

theorem composite_check_lists_messages:
  assumes "CompositeAssertion_init asserts operator = Inr c"
  shows "(operator = ''and'' \<longrightarrow>
            passed (CompositeAssertion_check c out) = list_all (\<lambda>a. passed (check a out)) asserts
          \<and> (\<not> passed (CompositeAssertion_check c out) \<longrightarrow>
                message (CompositeAssertion_check c out) =
                  str_nat (length (filter (\<lambda>a. \<not> passed (check a out)) asserts))
                  @ '' assertion(s) failed:'' @ nl
                  @ str_join nl (map (\<lambda>a. ''- '' @ message (check a out))
                       (filter (\<lambda>a. \<not> passed (check a out)) asserts))
              \<and> (\<forall>a \<in> set asserts. \<not> passed (check a out) \<longrightarrow>
                    sublist (''- '' @ message (check a out))
                      (message (CompositeAssertion_check c out)))))
       \<and> (operator \<noteq> ''and'' \<longrightarrow>
            operator = ''or''
          \<and> passed (CompositeAssertion_check c out) = list_ex (\<lambda>a. passed (check a out)) asserts
          \<and> (\<not> passed (CompositeAssertion_check c out) \<longrightarrow>
                message (CompositeAssertion_check c out) =
                  ''None of '' @ str_nat (length asserts) @ '' assertions passed:'' @ nl
                  @ str_join nl (map (\<lambda>a. ''- '' @ message (check a out)) asserts)
              \<and> (\<forall>a \<in> set asserts.
                    sublist (''- '' @ message (check a out))
                      (message (CompositeAssertion_check c out)))))"
proof (intro conjI impI)
  note c = init_composite[OF assms]
  let ?line = "\<lambda>a. ''- '' @ message (check a out)"
  let ?failing = "filter (\<lambda>a. \<not> passed (check a out)) asserts"
  { assume op: "operator = ''and''"
    then have pc: "p_operator c = ''and''" using c(2) by simp
    show "passed (CompositeAssertion_check c out) = list_all (\<lambda>a. passed (check a out)) asserts"
      using composite_and[OF pc, of out] c(1) by simp
    assume np: "\<not> passed (CompositeAssertion_check c out)"
    show msg: "message (CompositeAssertion_check c out) =
            str_nat (length ?failing) @ '' assertion(s) failed:'' @ nl
            @ str_join nl (map ?line ?failing)"
      using composite_and_message[OF pc np] c(1) by simp
    show "\<forall>a \<in> set asserts. \<not> passed (check a out) \<longrightarrow>
            sublist (?line a) (message (CompositeAssertion_check c out))"
    proof (intro ballI impI)
      fix a assume "a \<in> set asserts" "\<not> passed (check a out)"
      then have "?line a \<in> set (map ?line ?failing)" by simp
      then have "sublist (?line a) (str_join nl (map ?line ?failing))"
        by (rule sublist_str_join)
      then have "sublist (?line a)
          ((str_nat (length ?failing) @ '' assertion(s) failed:'' @ nl)
           @ str_join nl (map ?line ?failing))"
        by (rule sublist_after)
      then show "sublist (?line a) (message (CompositeAssertion_check c out))"
        using msg by simp
    qed }
  { assume op: "operator \<noteq> ''and''"
    then show isor: "operator = ''or''" using c(3) by simp
    then have pc: "p_operator c = ''or''" using c(2) by simp
    show "passed (CompositeAssertion_check c out) = list_ex (\<lambda>a. passed (check a out)) asserts"
      using composite_or[OF pc, of out] c(1) by simp
    assume np: "\<not> passed (CompositeAssertion_check c out)"
    show msg: "message (CompositeAssertion_check c out) =
            ''None of '' @ str_nat (length asserts) @ '' assertions passed:'' @ nl
            @ str_join nl (map ?line asserts)"
      using composite_or_message[OF pc np] c(1) by simp
    show "\<forall>a \<in> set asserts. sublist (?line a) (message (CompositeAssertion_check c out))"
    proof (intro ballI)
      fix a assume "a \<in> set asserts"
      then have "?line a \<in> set (map ?line asserts)" by simp
      then have "sublist (?line a) (str_join nl (map ?line asserts))"
        by (rule sublist_str_join)
      then have "sublist (?line a)
          ((''None of '' @ str_nat (length asserts) @ '' assertions passed:'' @ nl)
           @ str_join nl (map ?line asserts))"
        by (rule sublist_after)
      then show "sublist (?line a) (message (CompositeAssertion_check c out))"
        using msg by simp
    qed }
qed

text \<open>
  An instance: \<open>SuccessAssertion\<close> and \<open>DurationAssertion(5)\<close> on a failed call that took
  six seconds, combined with \<open>"and"\<close> and with \<open>"or"\<close>.
\<close>

theorem composite_check_lists_messages_witness:
  "(let asserts = [SuccessAssertion,
                   DurationAssertion_obj (\<lambda>x. ''5'') (\<lambda>x. ''6.00'')
                     \<lparr>p_max_seconds = 5, p_min_seconds = None\<rparr>];
        out = ToolCallResult_init ''slow'' ([] :: (string \<times> unit) list)
                \<lparr>content = [], isError = Some True\<rparr> 6 False (Some ''boom'');
        both = \<lparr>p_assertions = asserts, p_operator = ''and''\<rparr>;
        either = \<lparr>p_assertions = asserts, p_operator = ''or''\<rparr>
    in CompositeAssertion_init asserts ''and'' = Inr both
       \<and> CompositeAssertion_init asserts ''or'' = Inr either
       \<and> \<not> passed (CompositeAssertion_check both out)
       \<and> message (CompositeAssertion_check both out)
           = ''2 assertion(s) failed:'' @ nl @ ''- Tool call should succeed'' @ nl
             @ ''- Tool call should complete within 5s''
       \<and> \<not> passed (CompositeAssertion_check either out)
       \<and> message (CompositeAssertion_check either out)
           = ''None of 2 assertions passed:'' @ nl @ ''- Tool call should succeed'' @ nl
             @ ''- Tool call should complete within 5s'')"
proof -
  define asserts where
    "asserts = [SuccessAssertion :: unit BaseAssertion,
                DurationAssertion_obj (\<lambda>x. ''5'') (\<lambda>x. ''6.00'')
                  \<lparr>p_max_seconds = 5, p_min_seconds = None\<rparr>]"
  define out where
    "out = ToolCallResult_init ''slow'' ([] :: (string \<times> unit) list)
             \<lparr>content = [], isError = Some True\<rparr> 6 False (Some ''boom'')"
  define both where "both = \<lparr>p_assertions = asserts, p_operator = ''and''\<rparr>"
  define either where "either = \<lparr>p_assertions = asserts, p_operator = ''or''\<rparr>"
  have h1: "CompositeAssertion_init asserts ''and'' = Inr both"
    by (simp add: CompositeAssertion_init_def both_def)
  have h2: "CompositeAssertion_init asserts ''or'' = Inr either"
    by (simp add: CompositeAssertion_init_def either_def)
  have f: "list_all (\<lambda>a. passed (check a out)) asserts = False"
          "list_ex (\<lambda>a. passed (check a out)) asserts = False"
          "filter (\<lambda>a. \<not> passed (check a out)) asserts = asserts"
          "map (\<lambda>a. ''- '' @ message (check a out)) asserts
             = [''- Tool call should succeed'', ''- Tool call should complete within 5s'']"
    by (simp_all add: asserts_def out_def assert_defs ToolCallResult_init_def Let_def)
  have "length asserts = 2" by (simp add: asserts_def)
  moreover have "str_nat 2 = ''2''" by code_simp
  ultimately have n2: "str_nat (length asserts) = ''2''" by simp
  have a: "\<not> passed (CompositeAssertion_check both out)
       \<and> message (CompositeAssertion_check both out)
           = ''2 assertion(s) failed:'' @ nl @ ''- Tool call should succeed'' @ nl
             @ ''- Tool call should complete within 5s''"
    using composite_check_lists_messages[OF h1, of out] f n2 by simp
  have b: "\<not> passed (CompositeAssertion_check either out)
       \<and> message (CompositeAssertion_check either out)
           = ''None of 2 assertions passed:'' @ nl @ ''- Tool call should succeed'' @ nl
             @ ''- Tool call should complete within 5s''"
    using composite_check_lists_messages[OF h2, of out] f n2 by simp
  show ?thesis using h1 h2 a b
    by (simp add: asserts_def out_def both_def either_def Let_def)
qed

text \<open>
  The same composite with \<open>"and"\<close> on the same outcome fails, both inner checks fail,
  and neither the description \<open>"Tool call succeeds"\<close> nor the description
  \<open>"Duration <= 5s"\<close> of the inner assertions occurs in the composite's message.
\<close>

theorem composite_message_omits_description:
  "(let c = \<lparr>p_assertions =
               [SuccessAssertion,
                DurationAssertion_obj (\<lambda>x. ''5'') (\<lambda>x. ''6.00'')
                  \<lparr>p_max_seconds = 5, p_min_seconds = None\<rparr>],
             p_operator = ''and''\<rparr>;
        out = ToolCallResult_init ''slow'' ([] :: (string \<times> unit) list)
                \<lparr>content = [], isError = Some True\<rparr> 6 False (Some ''boom'')
    in \<not> passed (CompositeAssertion_check c out)
       \<and> \<not> passed (check (p_assertions c ! 0) out)
       \<and> description (p_assertions c ! 0) = ''Tool call succeeds''
       \<and> \<not> sublist (description (p_assertions c ! 0))
             (message (CompositeAssertion_check c out))
       \<and> \<not> passed (check (p_assertions c ! 1) out)
       \<and> description (p_assertions c ! 1) = ''Duration <= 5s''
       \<and> \<not> sublist (description (p_assertions c ! 1))
             (message (CompositeAssertion_check c out)))"
  by code_simp

section \<open>The error assertion\<close>

text \<open>
  C7, as the code has it. An error assertion built by the constructor passes exactly when
  the outcome's \<open>success\<close> is false and, if a non-empty pattern was supplied and the
  outcome has a non-empty error message, the compiled pattern is found in that message.
  An absent error message and an empty one both leave the pattern without effect.
\<close>

theorem error_assertion_passes_iff:
  assumes "ErrorAssertion_init re_compile pattern = Inr a"
  shows "passed (ErrorAssertion_check a out) \<longleftrightarrow>
           \<not> success out
           \<and> (\<forall>p compiled m.
                 pattern = Some p \<and> p \<noteq> [] \<and> re_compile p = Inr compiled
                 \<and> error_message out = Some m \<and> m \<noteq> [] \<longrightarrow> compiled m)"
  using assms
  by (auto simp: ErrorAssertion_init_def ErrorAssertion_check_def Let_def
           split: option.splits if_splits sum.splits)

text \<open>
  An instance: the error message \<open>"Kaboom!"\<close> against the pattern \<open>"BOOM"\<close>, which is
  found, and against \<open>"not found"\<close>, which is not.
\<close>

theorem error_assertion_passes_iff_witness:
  "(let out = fst (call (ToolCaller_init 30 :: unit ToolCaller)
                    (\<lambda>n a t. Inr \<lparr>content = [TextContent ''Kaboom!''], isError = Some True\<rparr>)
                    0 1 ''fail'' None None False);
        matching =
          \<lparr>p_pattern = Some (\<lambda>text. sublist (map lower_char ''BOOM'') (map lower_char text)),
           p_pattern_str = Some ''BOOM''\<rparr>;
        other =
          \<lparr>p_pattern =
             Some (\<lambda>text. sublist (map lower_char ''not found'') (map lower_char text)),
           p_pattern_str = Some ''not found''\<rparr>
    in ErrorAssertion_init literal_compile (Some ''BOOM'') = Inr matching
       \<and> ErrorAssertion_init literal_compile (Some ''not found'') = Inr other
       \<and> error_message out = Some ''Kaboom!''
       \<and> passed (ErrorAssertion_check matching out)
       \<and> \<not> passed (ErrorAssertion_check other out))"
proof -
  define out where
    "out = fst (call (ToolCaller_init 30 :: unit ToolCaller)
              (\<lambda>n a t. Inr \<lparr>content = [TextContent ''Kaboom!''], isError = Some True\<rparr>)
              0 1 ''fail'' None None False)"
  define matching where
    "matching =
       \<lparr>p_pattern = Some (\<lambda>text. sublist (map lower_char ''BOOM'') (map lower_char text)),
        p_pattern_str = Some ''BOOM''\<rparr>"
  define other where
    "other =
       \<lparr>p_pattern =
          Some (\<lambda>text. sublist (map lower_char ''not found'') (map lower_char text)),
        p_pattern_str = Some ''not found''\<rparr>"
  have h1: "ErrorAssertion_init literal_compile (Some ''BOOM'') = Inr matching"
    by (simp add: ErrorAssertion_init_def literal_compile_def matching_def)
  have h2: "ErrorAssertion_init literal_compile (Some ''not found'') = Inr other"
    by (simp add: ErrorAssertion_init_def literal_compile_def other_def)
  have o: "\<not> success out" "error_message out = Some ''Kaboom!''"
    by (simp_all add: out_def call_eval)
  have s1: "sublist (map lower_char ''BOOM'') (map lower_char ''Kaboom!'')" by code_simp
  have s2: "\<not> sublist (map lower_char ''not found'') (map lower_char ''Kaboom!'')"
    by code_simp
  have a: "passed (ErrorAssertion_check matching out)"
    using error_assertion_passes_iff[OF h1, of out] o s1 by (simp add: literal_compile_def)
  have b: "\<not> passed (ErrorAssertion_check other out)"
    using error_assertion_passes_iff[OF h2, of out] o s2 by (simp add: literal_compile_def)
  show ?thesis using h1 h2 o a b
    by (simp add: out_def matching_def other_def Let_def)
qed

text \<open>
  A tool reports an error whose only text block is empty, so the outcome of \<open>call\<close> has
  the error message \<open>""\<close>. The pattern \<open>"boom"\<close> is not found in \<open>""\<close>, and the error
  assertion with that pattern passes all the same.
\<close>

theorem error_assertion_ignores_empty_message:
  "(let out = fst (call (ToolCaller_init 30 :: unit ToolCaller)
                    (\<lambda>n a t. Inr \<lparr>content = [TextContent ''''], isError = Some True\<rparr>)
                    0 1 ''fail'' None None False)
    in case ErrorAssertion_init literal_compile (Some ''boom'') of
         Inl e \<Rightarrow> False
       | Inr a \<Rightarrow>
           (case p_pattern a of
              None \<Rightarrow> False
            | Some compiled \<Rightarrow>
                \<not> success out \<and> error_message out = Some [] \<and> \<not> compiled []
                \<and> passed (ErrorAssertion_check a out)))"
  by (simp add: call_eval ErrorAssertion_init_def literal_compile_def
      ErrorAssertion_check_def)

section \<open>Text content and raised calls\<close>

text \<open>
  C8. The text content of an outcome built from a protocol result is the texts of the
  result's text-bearing content blocks, all of them and in block order, joined by
  newlines; it is the empty string when the result has no content blocks; the blocks
  \<open>"Echo: "\<close> and \<open>"Hello, MCP!"\<close> give \<open>"Echo: "\<close>, a newline and \<open>"Hello, MCP!"\<close>. The same holds for the outcome
  that \<open>call\<close> returns for a result, and for a second reading of the property.
\<close>

theorem text_content_joins_blocks:
  "fst (text_content (ToolCallResult_init n a r d s m)) = str_join nl (block_texts (content r))
   \<and> fst (text_content (ToolCallResult_init n a \<lparr>content = [], isError = e\<rparr> d s m)) = []
   \<and> fst (text_content (ToolCallResult_init n a
            \<lparr>content = [TextContent ''Echo: '', TextContent ''Hello, MCP!''], isError = e\<rparr>
            d s m))
       = ''Echo: '' @ nl @ ''Hello, MCP!''
   \<and> fst (text_content (fst (call self (\<lambda>n a t. Inr r) t0 t1 tool args0 timeout ee)))
       = str_join nl (block_texts (content r))
   \<and> fst (text_content (snd (text_content (ToolCallResult_init n a r d s m))))
       = str_join nl (block_texts (content r))"
  by (simp add: text_content_again text_content_fresh call_returns Let_def)

text \<open>
  C10. When the session's \<open>call_tool\<close> raises, a timeout or any other exception, the
  outcome that \<open>call\<close> records carries the synthesized result with an empty content list
  and the error flag set: its \<open>is_error\<close> is true and its text content is the empty string.
\<close>

theorem raised_call_has_empty_error_result:
  assumes "s tool (case args0 of None \<Rightarrow> [] | Some a \<Rightarrow> a)
             (case timeout of Some t \<Rightarrow> t | None \<Rightarrow> p_default_timeout self) = Inl e"
  shows "(case call self s t0 t1 tool args0 timeout expect_error of
            (out, self') \<Rightarrow>
              result out = \<lparr>content = [], isError = Some True\<rparr>
              \<and> is_error out
              \<and> fst (text_content out) = []
              \<and> last (p_call_history self') = out)"
  using assms
  by (cases e)
     (simp_all add: call_def Let_def ToolCallResult_init_def is_error_def has_isError_def
        text_content_def)

text \<open>
  An instance: a session that is not connected, so that \<open>call_tool\<close> raises a
  \<open>ConnectionError\<close> whatever the tool would have returned.
\<close>

theorem raised_call_has_empty_error_result_witness:
  "(\<lambda>n a t. call_tool (\<lambda>x. ''30.0'') (MCPClientSession_init demo_server False)
              (ToolReturned \<lparr>content = [TextContent ''8''], isError = Some False\<rparr>)
              n (Some a) (Some t))
      ''add'' ([(''a'', 5), (''b'', 3)] :: (string \<times> int) list) 2
     = Inl (ConnectionError (''MCP server '' @ sq @ ''demo'' @ sq @ '' is not connected''))
   \<and> (case call (ToolCaller_init 30)
             (\<lambda>n a t. call_tool (\<lambda>x. ''30.0'') (MCPClientSession_init demo_server False)
                (ToolReturned \<lparr>content = [TextContent ''8''], isError = Some False\<rparr>)
                n (Some a) (Some t))
             0 1 ''add'' (Some [(''a'', 5), (''b'', 3)]) (Some 2) False of
         (out, self') \<Rightarrow>
           result out = \<lparr>content = [], isError = Some True\<rparr>
           \<and> is_error out
           \<and> fst (text_content out) = []
           \<and> last (p_call_history self') = out)"
  using raised_call_has_empty_error_result
    [where s = "\<lambda>n a t. call_tool (\<lambda>x. ''30.0'') (MCPClientSession_init demo_server False)
                (ToolReturned \<lparr>content = [TextContent ''8''], isError = Some False\<rparr>)
                n (Some a) (Some t)"
      and tool = "''add''" and ?args0.0 = "Some [(''a'', 5), (''b'', 3 :: int)]"
      and timeout = "Some 2" and self = "ToolCaller_init 30"
      and e = "ConnectionError (''MCP server '' @ sq @ ''demo'' @ sq @ '' is not connected'')"
      and ?t0.0 = 0 and ?t1.0 = 1 and expect_error = False]
  by (simp add: session_defs call_eval is_error_def text_content_def)

section \<open>Disconnecting a session\<close>

text \<open>
  C9. Whatever the cleanup does, in time or not, a session is not connected after
  \<open>disconnect\<close>, and a second \<open>disconnect\<close> changes nothing. A connected session comes
  out of \<open>disconnect\<close> with its four resource attributes reset; a session that is not
  connected comes out as it was.
\<close>

theorem disconnect_idempotent:
  "\<not> is_connected (disconnect s ev forced)
   \<and> disconnect (disconnect s ev forced) ev' forced' = disconnect s ev forced
   \<and> disconnect s ev forced =
       (if is_connected s
        then s\<lparr>p_session := None, p_exit_stack := None, p_read_stream := None,
               p_write_stream := None\<rparr>
        else s)"
  by (cases ev) (simp_all add: disconnect_def cleanup_def is_connected_def)

section \<open>Starting servers in parallel\<close>

lemma collect_errors_eq:
  "collect_errors nrs acc =
     acc @ concat (map (\<lambda>(n, r). case r of Inl e \<Rightarrow> [(n, e)] | Inr a \<Rightarrow> []) nrs)"
proof (induction nrs acc rule: collect_errors.induct)
  case (1 errors)
  show ?case by simp
next
  case (2 n e rest errors)
  then show ?case by simp
next
  case (3 n a rest errors)
  then show ?case by simp
qed

lemma dict_set_values:
  "snd ` set (dict_set d k v) \<subseteq> insert v (snd ` set d)"
  by (induction d k v rule: dict_set.induct) auto

lemma dict_set_keeps:
  "a \<in> snd ` set d \<Longrightarrow> a \<in> snd ` set (dict_set d k v) \<or> map_of d k = Some a"
  by (induction d k v rule: dict_set.induct) auto

lemma dict_set_new: "v \<in> snd ` set (dict_set d k v)"
  by (induction d k v rule: dict_set.induct) auto

lemma connect_init_result:
  "connect fmt (MCPClientSession_init cfg lg) ev cev = (r, s') \<Longrightarrow>
     is_connected s' = (r = Inr ())"
  by (cases ev)
     (auto simp: connect_def MCPClientSession_init_def is_connected_def cleanup_def)

lemma start_server_existing:
  assumes "map_of (p_sessions self) n = Some a" and "is_connected (st ! a)"
  shows "\<exists>self1. start_server fmt self st n ev cev = (Inr a, self1, st)
               \<and> p_sessions self1 = p_sessions self"
  using assms by (simp add: start_server_def Let_def)

lemma start_server_unknown:
  assumes "\<not> (\<exists>a. map_of (p_sessions self) n = Some a \<and> is_connected (st ! a))"
    and "get_server (m_config self) n = None"
  shows "\<exists>e self1. start_server fmt self st n ev cev = (Inl e, self1, st)
               \<and> p_sessions self1 = p_sessions self"
  using assms by (cases "map_of (p_sessions self) n") (simp_all add: start_server_def Let_def)

lemma start_server_fresh:
  assumes "\<not> (\<exists>a. map_of (p_sessions self) n = Some a \<and> is_connected (st ! a))"
    and "get_server (m_config self) n = Some cfg"
  shows "\<exists>r' s' self1.
           connect fmt (MCPClientSession_init cfg (m_mcp_logger self)) ev cev = (r', s')
         \<and> start_server fmt self st n ev cev =
             (case r' of Inl e \<Rightarrow> Inl e | Inr u \<Rightarrow> Inr (length st), self1, st @ [s'])
         \<and> p_sessions self1 =
             (case r' of Inl e \<Rightarrow> p_sessions self
              | Inr u \<Rightarrow> dict_set (p_sessions self) n (length st))"
proof -
  obtain r' s' where c: "connect fmt (MCPClientSession_init cfg (m_mcp_logger self)) ev cev = (r', s')"
    by (cases "connect fmt (MCPClientSession_init cfg (m_mcp_logger self)) ev cev") auto
  show ?thesis
    using assms c
    by (cases "map_of (p_sessions self) n"; cases r')
       (simp_all add: start_server_def Let_def alloc_def)
qed

lemma start_server_step:
  assumes "start_server fmt self st n ev cev = (r, self1, st1)"
    and "registry_allocated self st" and "settled self st A"
  shows "registry_allocated self1 st1 \<and> settled self1 st1 (A \<union> {length st ..< length st1})
         \<and> length st \<le> length st1"
proof -
  have unchanged: "st1 = st \<Longrightarrow> p_sessions self1 = p_sessions self \<Longrightarrow> ?thesis"
    using assms(2,3) by (simp add: registry_allocated_def settled_def)
  show ?thesis
  proof (cases "\<exists>a. map_of (p_sessions self) n = Some a \<and> is_connected (st ! a)")
    case True
    then obtain a where "map_of (p_sessions self) n = Some a" "is_connected (st ! a)" by blast
    from start_server_existing[OF this, of fmt ev cev] assms(1) show ?thesis
      using unchanged by auto
  next
    case notconn: False
    show ?thesis
    proof (cases "get_server (m_config self) n")
      case None
      from start_server_unknown[OF notconn None, of fmt ev cev] assms(1) show ?thesis
        using unchanged by auto
    next
      case (Some cfg)
      from start_server_fresh[OF notconn Some, of fmt ev cev] assms(1)
      obtain r' s' where
        c: "connect fmt (MCPClientSession_init cfg (m_mcp_logger self)) ev cev = (r', s')"
        and st1: "st1 = st @ [s']"
        and s1: "p_sessions self1 =
             (case r' of Inl e \<Rightarrow> p_sessions self
              | Inr u \<Rightarrow> dict_set (p_sessions self) n (length st))"
        by auto
      have old: "\<And>b. b < length st \<Longrightarrow> st1 ! b = st ! b" by (simp add: st1 nth_append)
      have new: "st1 ! length st = s'" by (simp add: st1)
      show ?thesis
      proof (cases r')
        case (Inl e)
        then have s1: "p_sessions self1 = p_sessions self" using s1 by simp
        have nc: "\<not> is_connected s'" using connect_init_result[OF c] Inl by simp
        have "registry_allocated self1 st1" using assms(2) by (auto simp: registry_allocated_def s1 st1)
        moreover have "settled self1 st1 (A \<union> {length st ..< length st1})"
          unfolding settled_def
        proof
          fix a assume "a \<in> A \<union> {length st ..< length st1}"
          then consider "a \<in> A" | "a = length st" by (auto simp: st1)
          then show "a < length st1 \<and> (a \<in> snd ` set (p_sessions self1) \<or> \<not> is_connected (st1 ! a))"
          proof cases
            case 1
            then have "a < length st" "a \<in> snd ` set (p_sessions self) \<or> \<not> is_connected (st ! a)"
              using assms(3) by (auto simp: settled_def)
            then show ?thesis using old[of a] by (auto simp: s1 st1)
          next
            case 2
            then show ?thesis using new nc by (simp add: st1)
          qed
        qed
        ultimately show ?thesis by (simp add: st1)
      next
        case (Inr u)
        then have s1: "p_sessions self1 = dict_set (p_sessions self) n (length st)"
          using s1 by simp
        have "registry_allocated self1 st1"
          using assms(2) dict_set_values[of "p_sessions self" n "length st"]
          by (fastforce simp: registry_allocated_def s1 st1)
        moreover have "settled self1 st1 (A \<union> {length st ..< length st1})"
          unfolding settled_def
        proof
          fix a assume "a \<in> A \<union> {length st ..< length st1}"
          then consider "a \<in> A" | "a = length st" by (auto simp: st1)
          then show "a < length st1 \<and> (a \<in> snd ` set (p_sessions self1) \<or> \<not> is_connected (st1 ! a))"
          proof cases
            case 1
            then have lt: "a < length st"
              and d: "a \<in> snd ` set (p_sessions self) \<or> \<not> is_connected (st ! a)"
              using assms(3) by (auto simp: settled_def)
            show ?thesis
            proof (cases "a \<in> snd ` set (p_sessions self)")
              case True
              from dict_set_keeps[OF True, of n "length st"]
              show ?thesis
              proof
                assume "a \<in> snd ` set (dict_set (p_sessions self) n (length st))"
                then show ?thesis using lt by (simp add: s1 st1)
              next
                assume "map_of (p_sessions self) n = Some a"
                then have "\<not> is_connected (st ! a)" using notconn by simp
                then show ?thesis using lt old[of a] by (simp add: st1)
              qed
            next
              case False
              then show ?thesis using d lt old[of a] by (simp add: st1)
            qed
          next
            case 2
            then show ?thesis using dict_set_new[of "length st" "p_sessions self" n]
              by (simp add: s1 st1)
          qed
        qed
        ultimately show ?thesis by (simp add: st1)
      qed
    qed
  qed
qed


lemma gather_start_inv:
  assumes "gather_start fmt cev i names self st = (results, self1, st1)"
    and "registry_allocated self st" and "settled self st A"
  shows "registry_allocated self1 st1 \<and> settled self1 st1 (A \<union> {length st ..< length st1})
         \<and> length st \<le> length st1 \<and> length results = length names"
  using assms
proof (induction names arbitrary: i self st A results self1 st1)
  case Nil
  then show ?case by simp
next
  case (Cons n ns)
  obtain r selfa sta where s: "start_server fmt self st n (fst (cev i)) (snd (cev i)) = (r, selfa, sta)"
    by (cases "start_server fmt self st n (fst (cev i)) (snd (cev i))") auto
  obtain rs selfb stb where g: "gather_start fmt cev (Suc i) ns selfa sta = (rs, selfb, stb)"
    by (cases "gather_start fmt cev (Suc i) ns selfa sta") auto
  from Cons.prems(1) s g have eq: "results = r # rs" "self1 = selfb" "st1 = stb" by simp_all
  from start_server_step[OF s Cons.prems(2,3)] have
    a: "registry_allocated selfa sta" "settled selfa sta (A \<union> {length st ..< length sta})" "length st \<le> length sta"
    by simp_all
  from Cons.IH[OF g a(1,2)] have
    b: "registry_allocated selfb stb"
       "settled selfb stb (A \<union> {length st ..< length sta} \<union> {length sta ..< length stb})"
       "length sta \<le> length stb" "length rs = length ns"
    by simp_all
  have "A \<union> {length st ..< length sta} \<union> {length sta ..< length stb}
          = A \<union> {length st ..< length stb}"
    using a(3) b(3) by auto
  then show ?case using a b eq by simp
qed

lemma disconnect_not_connected: "\<not> is_connected (disconnect s ev forced)"
  by (cases ev) (simp_all add: disconnect_def cleanup_def is_connected_def)

lemma dict_del_no_key: "map_of d n = None \<Longrightarrow> dict_del d n = d"
  by (induction d n rule: dict_del.induct) (auto split: if_splits)

lemma nth_update_cases: "st[a := x] ! b = x \<or> st[a := x] ! b = st ! b"
  by (cases "a < length st") (auto simp: nth_list_update list_update_beyond)

lemma stop_server_effect:
  assumes "stop_server self st n ev forced = (self1, st1)"
  shows "p_sessions self1 = dict_del (p_sessions self) n"
    and "length st1 = length st"
    and "\<not> is_connected (st ! b) \<Longrightarrow> \<not> is_connected (st1 ! b)"
    and "map_of (p_sessions self) n = Some a \<Longrightarrow> a < length st \<Longrightarrow> \<not> is_connected (st1 ! a)"
proof -
  show "p_sessions self1 = dict_del (p_sessions self) n"
    using assms
    by (cases "map_of (p_sessions self) n") (auto simp: stop_server_def Let_def dict_del_no_key)
  show "length st1 = length st"
    using assms by (cases "map_of (p_sessions self) n") (auto simp: stop_server_def Let_def)
  show "\<not> is_connected (st ! b) \<Longrightarrow> \<not> is_connected (st1 ! b)"
  proof (cases "map_of (p_sessions self) n")
    case None
    then show "\<not> is_connected (st ! b) \<Longrightarrow> \<not> is_connected (st1 ! b)"
      using assms by (simp add: stop_server_def)
  next
    case (Some a')
    assume nb: "\<not> is_connected (st ! b)"
    have "st1 = st \<or> st1 = st[a' := disconnect (st ! a') ev forced]"
      using assms Some by (auto simp: stop_server_def Let_def split: if_splits)
    then show "\<not> is_connected (st1 ! b)"
      using nb nth_update_cases[of st a' "disconnect (st ! a') ev forced" b]
        disconnect_not_connected[of "st ! a'" ev forced]
      by auto
  qed
  show "map_of (p_sessions self) n = Some a \<Longrightarrow> a < length st \<Longrightarrow> \<not> is_connected (st1 ! a)"
    using assms disconnect_not_connected
    by (auto simp: stop_server_def Let_def split: if_splits)
qed

lemma stop_each_effect:
  assumes "stop_each dev (map fst d) self st = (self1, st1)" and "p_sessions self = d"
  shows "p_sessions self1 = [] \<and> length st1 = length st
         \<and> (\<forall>b. \<not> is_connected (st ! b) \<longrightarrow> \<not> is_connected (st1 ! b))
         \<and> (\<forall>a \<in> snd ` set d. a < length st \<longrightarrow> \<not> is_connected (st1 ! a))"
  using assms
proof (induction d arbitrary: self st)
  case Nil
  then show ?case by simp
next
  case (Cons p d)
  obtain n a where p: "p = (n, a)" by (cases p)
  obtain selfa sta where s: "stop_server self st n (fst (dev n)) (snd (dev n)) = (selfa, sta)"
    by (cases "stop_server self st n (fst (dev n)) (snd (dev n))") auto
  have m: "map_of (p_sessions self) n = Some a" using Cons.prems(2) p by simp
  note e = stop_server_effect[OF s]
  have da: "p_sessions selfa = d" using e(1) Cons.prems(2) p by simp
  have rest: "stop_each dev (map fst d) selfa sta = (self1, st1)"
    using Cons.prems(1) s p by simp
  from Cons.IH[OF rest da] have
    ih: "p_sessions self1 = []" "length st1 = length sta"
        "\<forall>b. \<not> is_connected (sta ! b) \<longrightarrow> \<not> is_connected (st1 ! b)"
        "\<forall>a \<in> snd ` set d. a < length sta \<longrightarrow> \<not> is_connected (st1 ! a)"
    by simp_all
  have "\<forall>b. \<not> is_connected (st ! b) \<longrightarrow> \<not> is_connected (st1 ! b)"
    using e(3) ih(3) by blast
  moreover have "\<forall>a' \<in> snd ` set (p # d). a' < length st \<longrightarrow> \<not> is_connected (st1 ! a')"
  proof (intro ballI impI)
    fix a' assume "a' \<in> snd ` set (p # d)" and lt: "a' < length st"
    then consider "a' = a" | "a' \<in> snd ` set d" using p by auto
    then show "\<not> is_connected (st1 ! a')"
    proof cases
      case 1
      then have "\<not> is_connected (sta ! a')" using e(4)[OF m] lt by simp
      then show ?thesis using ih(3) by blast
    next
      case 2
      then show ?thesis using ih(4) lt e(2) by auto
    qed
  qed
  ultimately show ?case using ih(1,2) e(2) by simp
qed

lemma parallel_failed:
  assumes "gather_start fmt cev 0 names self st = (results, self1, st1)"
    and "failed_starts names results \<noteq> []"
    and "stop_all_servers self1 st1 dev = (self2, st2)"
  shows "start_servers_parallel fmt self st names cev dev =
           (Inl (ConnectionError
              (''Failed to start '' @ str_nat (length (failed_starts names results))
               @ '' server(s):'' @ nl
               @ str_join nl (map (\<lambda>(n, err). n @ '': '' @ str_exn err)
                    (failed_starts names results)))), self2, st2)"
  using assms
  by (simp add: start_servers_parallel_def Let_def collect_errors_eq failed_starts_def)


lemma start_server_shape:
  assumes "start_server fmt self st n ev cev = (r, self1, st1)"
  shows "(st1 = st \<and> p_sessions self1 = p_sessions self
            \<and> (\<forall>a. r = Inr a \<longrightarrow> a \<in> snd ` set (p_sessions self)))
         \<or> (\<exists>s'. st1 = st @ [s']
               \<and> ((\<exists>e. r = Inl e) \<and> p_sessions self1 = p_sessions self
                  \<or> r = Inr (length st)
                    \<and> p_sessions self1 = dict_set (p_sessions self) n (length st)))"
proof (cases "\<exists>a. map_of (p_sessions self) n = Some a \<and> is_connected (st ! a)")
  case True
  then obtain a' where m: "map_of (p_sessions self) n = Some a'" and c: "is_connected (st ! a')"
    by blast
  from start_server_existing[OF m c, of fmt ev cev] assms
  have "r = Inr a'" "st1 = st" "p_sessions self1 = p_sessions self" by auto
  moreover have "a' \<in> snd ` set (p_sessions self)"
    using map_of_SomeD[OF m] by force
  ultimately show ?thesis by simp
next
  case notconn: False
  show ?thesis
  proof (cases "get_server (m_config self) n")
    case None
    from start_server_unknown[OF notconn None, of fmt ev cev] assms show ?thesis by auto
  next
    case (Some cfg)
    from start_server_fresh[OF notconn Some, of fmt ev cev]
    obtain r' s' selfx where
      "connect fmt (MCPClientSession_init cfg (m_mcp_logger self)) ev cev = (r', s')"
      and x: "start_server fmt self st n ev cev =
             (case r' of Inl e \<Rightarrow> Inl e | Inr u \<Rightarrow> Inr (length st), selfx, st @ [s'])"
      and sx: "p_sessions selfx =
             (case r' of Inl e \<Rightarrow> p_sessions self
              | Inr u \<Rightarrow> dict_set (p_sessions self) n (length st))"
      by (elim exE conjE) (rule that)
    from x assms have r: "r = (case r' of Inl e \<Rightarrow> Inl e | Inr u \<Rightarrow> Inr (length st))"
      and "self1 = selfx" and st1: "st1 = st @ [s']" by simp_all
    then show ?thesis using sx by (cases r') auto
  qed
qed

lemma start_server_registered:
  assumes "start_server fmt self st n ev cev = (r, self1, st1)"
  shows "length st \<le> length st1"
    and "snd ` set (p_sessions self1) \<subseteq> snd ` set (p_sessions self) \<union> {length st ..< length st1}"
    and "r = Inr a \<Longrightarrow> a \<in> snd ` set (p_sessions self) \<union> {length st ..< length st1}"
proof -
  note sh = start_server_shape[OF assms]
  show "length st \<le> length st1" using sh by auto
  show "snd ` set (p_sessions self1) \<subseteq> snd ` set (p_sessions self) \<union> {length st ..< length st1}"
  proof -
    from sh consider "st1 = st" "p_sessions self1 = p_sessions self"
      | s' where "st1 = st @ [s']" "p_sessions self1 = p_sessions self"
      | s' where "st1 = st @ [s']"
          "p_sessions self1 = dict_set (p_sessions self) n (length st)"
      by blast
    then show ?thesis
    proof cases
      case 1
      then show ?thesis by simp
    next
      case 2
      then show ?thesis by auto
    next
      case 3
      have "{length st ..< length st1} = {length st}" using 3(1) by auto
      then show ?thesis
        using dict_set_values[of "p_sessions self" n "length st"] 3(2) by simp
    qed
  qed
  show "r = Inr a \<Longrightarrow> a \<in> snd ` set (p_sessions self) \<union> {length st ..< length st1}"
    using sh by auto
qed

lemma gather_start_started:
  assumes "gather_start fmt cev i names self st = (results, self1, st1)"
  shows "length st \<le> length st1
         \<and> snd ` set (p_sessions self1) \<subseteq> snd ` set (p_sessions self) \<union> {length st ..< length st1}
         \<and> (\<forall>a. Inr a \<in> set results \<longrightarrow>
               a \<in> snd ` set (p_sessions self) \<union> {length st ..< length st1})"
  using assms
proof (induction names arbitrary: i self st results self1 st1)
  case Nil
  then show ?case by simp
next
  case (Cons n ns)
  obtain r selfa sta where s: "start_server fmt self st n (fst (cev i)) (snd (cev i)) = (r, selfa, sta)"
    by (cases "start_server fmt self st n (fst (cev i)) (snd (cev i))") auto
  obtain rs selfb stb where g: "gather_start fmt cev (Suc i) ns selfa sta = (rs, selfb, stb)"
    by (cases "gather_start fmt cev (Suc i) ns selfa sta") auto
  from Cons.prems s g have eq: "results = r # rs" "self1 = selfb" "st1 = stb" by simp_all
  note a = start_server_registered[OF s]
  from Cons.IH[OF g] have
    b: "length sta \<le> length stb"
       "snd ` set (p_sessions selfb) \<subseteq> snd ` set (p_sessions selfa) \<union> {length sta ..< length stb}"
       "\<forall>a. Inr a \<in> set rs \<longrightarrow> a \<in> snd ` set (p_sessions selfa) \<union> {length sta ..< length stb}"
    by simp_all
  have sub: "snd ` set (p_sessions selfa) \<union> {length sta ..< length stb}
              \<subseteq> snd ` set (p_sessions self) \<union> {length st ..< length stb}"
    using a(1,2) b(1) by auto
  have "\<forall>a. Inr a \<in> set (r # rs) \<longrightarrow> a \<in> snd ` set (p_sessions self) \<union> {length st ..< length stb}"
  proof (intro allI impI)
    fix x assume "Inr x \<in> set (r # rs)"
    then consider "r = Inr x" | "Inr x \<in> set rs" by auto
    then show "x \<in> snd ` set (p_sessions self) \<union> {length st ..< length stb}"
    proof cases
      case 1
      from a(3)[OF 1] b(1) show ?thesis by auto
    next
      case 2
      then show ?thesis using b(3) sub by blast
    qed
  qed
  moreover have "length st \<le> length stb" using a(1) b(1) by simp
  moreover have "snd ` set (p_sessions selfb) \<subseteq> snd ` set (p_sessions self) \<union> {length st ..< length stb}"
    using b(2) sub by blast
  ultimately show ?case using eq by simp
qed

text \<open>
  For a new manager whose configured names are distinct, a \<open>start_server\<close> task raises
  exactly when its connect event is a failure, so some task raises exactly when some
  server's connect fails.
\<close>

lemma get_server_configured:
  "n \<in> set (map ServerConfig.name svs) \<Longrightarrow> get_server_in svs n \<noteq> None"
  by (induction svs) auto

lemma dict_set_keys: "fst ` set (dict_set d k v) = insert k (fst ` set d)"
  by (induction d k v rule: dict_set.induct) auto

lemma map_of_no_key: "k \<notin> fst ` set d \<Longrightarrow> map_of d k = None"
  by (simp add: map_of_eq_None_iff)

lemma connect_init_fails_iff:
  "isl (fst (connect fmt (MCPClientSession_init cfg lg) ev cev)) = (ev \<noteq> ConnectOk)"
  by (cases ev) (simp_all add: connect_def MCPClientSession_init_def is_connected_def)

lemma start_server_config:
  "start_server fmt self st n ev cev = (r, self1, st1) \<Longrightarrow> m_config self1 = m_config self"
  by (auto simp: start_server_def Let_def alloc_def
           split: option.splits if_splits sum.splits prod.splits)

lemma start_server_new_name:
  assumes "n \<notin> fst ` set (p_sessions self)"
    and "get_server (m_config self) n \<noteq> None"
    and "start_server fmt self st n ev cev = (r, self1, st1)"
  shows "isl r = (ev \<noteq> ConnectOk)"
    and "fst ` set (p_sessions self1) \<subseteq> insert n (fst ` set (p_sessions self))"
proof -
  from assms(2) obtain cfg where cfg: "get_server (m_config self) n = Some cfg" by auto
  have m: "map_of (p_sessions self) n = None" using assms(1) by (rule map_of_no_key)
  then have nc: "\<not> (\<exists>a. map_of (p_sessions self) n = Some a \<and> is_connected (st ! a))" by simp
  from start_server_fresh[OF nc cfg, of fmt ev cev]
  obtain r' s' selfx where
    c: "connect fmt (MCPClientSession_init cfg (m_mcp_logger self)) ev cev = (r', s')"
    and x: "start_server fmt self st n ev cev =
             (case r' of Inl e \<Rightarrow> Inl e | Inr u \<Rightarrow> Inr (length st), selfx, st @ [s'])"
    and sx: "p_sessions selfx =
             (case r' of Inl e \<Rightarrow> p_sessions self
              | Inr u \<Rightarrow> dict_set (p_sessions self) n (length st))"
    by (elim exE conjE) (rule that)
  from x assms(3) have r: "r = (case r' of Inl e \<Rightarrow> Inl e | Inr u \<Rightarrow> Inr (length st))"
    and s: "self1 = selfx" by simp_all
  have "isl r' = (ev \<noteq> ConnectOk)"
    using connect_init_fails_iff[of fmt cfg "m_mcp_logger self" ev cev] c by simp
  then show "isl r = (ev \<noteq> ConnectOk)" using r by (cases r') simp_all
  show "fst ` set (p_sessions self1) \<subseteq> insert n (fst ` set (p_sessions self))"
    using sx s dict_set_keys[of "p_sessions self" n "length st"] by (cases r') auto
qed

lemma gather_start_new_names:
  assumes "distinct names"
    and "set names \<inter> fst ` set (p_sessions self) = {}"
    and "\<forall>n \<in> set names. get_server (m_config self) n \<noteq> None"
    and "gather_start fmt cev i names self st = (results, self1, st1)"
  shows "map isl results = map (\<lambda>k. fst (cev k) \<noteq> ConnectOk) [i ..< i + length names]"
  using assms
proof (induction names arbitrary: i self st results self1 st1)
  case Nil
  then show ?case by simp
next
  case (Cons n ns)
  obtain r selfa sta where s: "start_server fmt self st n (fst (cev i)) (snd (cev i)) = (r, selfa, sta)"
    by (cases "start_server fmt self st n (fst (cev i)) (snd (cev i))") auto
  obtain rs selfb stb where g: "gather_start fmt cev (Suc i) ns selfa sta = (rs, selfb, stb)"
    by (cases "gather_start fmt cev (Suc i) ns selfa sta") auto
  from Cons.prems(4) s g have eq: "results = r # rs" by simp
  have n1: "n \<notin> fst ` set (p_sessions self)" using Cons.prems(2) by auto
  have n2: "get_server (m_config self) n \<noteq> None" using Cons.prems(3) by simp
  note a = start_server_new_name[OF n1 n2 s]
  have d: "distinct ns" and nn: "n \<notin> set ns" using Cons.prems(1) by simp_all
  have k: "set ns \<inter> fst ` set (p_sessions selfa) = {}"
    using a(2) Cons.prems(2) nn by auto
  have c: "\<forall>m \<in> set ns. get_server (m_config selfa) m \<noteq> None"
    using Cons.prems(3) start_server_config[OF s] by simp
  from Cons.IH[OF d k c g]
  have "map isl rs = map (\<lambda>k. fst (cev k) \<noteq> ConnectOk) [Suc i ..< Suc i + length ns]" .
  moreover have "[i ..< i + length (n # ns)] = i # [Suc i ..< Suc i + length ns]"
  proof -
    have "i < i + length (n # ns)" by simp
    then have "[i ..< i + length (n # ns)] = i # [Suc i ..< i + length (n # ns)]"
      by (rule upt_conv_Cons)
    moreover have "i + length (n # ns) = Suc i + length ns" by simp
    ultimately show ?thesis by (simp only:)
  qed
  ultimately have "map isl (r # rs)
      = map (\<lambda>k. fst (cev k) \<noteq> ConnectOk) [i ..< i + length (n # ns)]"
    using a(1) by (simp only: list.map)
  then show ?case using eq by (simp only:)
qed

lemma failed_starts_empty_iff:
  "length results = length names \<Longrightarrow>
     failed_starts names results = [] \<longleftrightarrow> (\<forall>r \<in> set results. \<not> isl r)"
proof (induction names arbitrary: results)
  case Nil
  then show ?case by (simp add: failed_starts_def)
next
  case (Cons n ns)
  then obtain r rs where rs: "results = r # rs" "length rs = length ns"
    by (cases results) auto
  from Cons.IH[OF rs(2)] show ?case
    using rs(1) by (cases r) (simp_all add: failed_starts_def)
qed

lemma new_manager_failure_iff:
  assumes "distinct (get_server_names cfg)"
    and "gather_start fmt cev 0 (get_server_names cfg) (MCPServerManager_init cfg lg) st
           = (results, self1, st1)"
  shows "failed_starts (get_server_names cfg) results \<noteq> [] \<longleftrightarrow>
           (\<exists>k < length (servers cfg). fst (cev k) \<noteq> ConnectOk)"
proof -
  let ?self = "MCPServerManager_init cfg lg"
  have e: "set (get_server_names cfg) \<inter> fst ` set (p_sessions ?self) = {}"
    by (simp add: MCPServerManager_init_def)
  have c: "\<forall>n \<in> set (get_server_names cfg). get_server (m_config ?self) n \<noteq> None"
    using get_server_configured[of _ "servers cfg"]
    by (simp add: get_server_names_def get_server_def MCPServerManager_init_def)
  from gather_start_new_names[OF assms(1) e c assms(2)]
  have m: "map isl results = map (\<lambda>k. fst (cev k) \<noteq> ConnectOk) [0 ..< length (get_server_names cfg)]"
    by simp
  then have len: "length results = length (get_server_names cfg)"
    by (metis length_map length_upt minus_nat.diff_0)
  have "(\<exists>r \<in> set results. isl r) \<longleftrightarrow> True \<in> set (map isl results)" by auto
  also have "\<dots> \<longleftrightarrow> (\<exists>k < length (servers cfg). fst (cev k) \<noteq> ConnectOk)"
    unfolding m by (auto simp: get_server_names_def)
  finally show ?thesis using failed_starts_empty_iff[OF len] by blast
qed

text \<open>
  C2. Let the registry refer to allocated sessions only, and let at least one of the
  \<open>start_server\<close> tasks of \<open>start_all_servers(parallel=True)\<close> raise. Then the call
  raises one \<open>ConnectionError\<close> whose text counts the failed tasks and has one line
  \<open>"name: exception"\<close> for each of them, in task order. When it is raised the registry is
  empty, so \<open>connected_servers\<close> is empty, and the teardown has reached every session:
  no session that a task returned, none that the registry held before the call, and none
  that the call created is connected.
\<close>

theorem parallel_start_failure_rolls_back:
  assumes wf: "\<forall>a \<in> snd ` set (p_sessions self). a < length st"
    and g: "gather_start fmt cev 0 (server_names self) self st = (results, self1, st1)"
    and f: "failed_starts (server_names self) results \<noteq> []"
  shows "(case start_all_servers fmt self st True cev dev of
            (res, self2, st2) \<Rightarrow>
              res = Inl (ConnectionError
                      (''Failed to start ''
                       @ str_nat (length (failed_starts (server_names self) results))
                       @ '' server(s):'' @ nl
                       @ str_join nl (map (\<lambda>(n, err). n @ '': '' @ str_exn err)
                            (failed_starts (server_names self) results))))
              \<and> p_sessions self2 = []
              \<and> connected_servers self2 st2 = []
              \<and> (\<forall>a. Inr a \<in> set results \<longrightarrow> \<not> is_connected (st2 ! a))
              \<and> (\<forall>a. a \<in> snd ` set (p_sessions self) \<or> (length st \<le> a \<and> a < length st2)
                       \<longrightarrow> \<not> is_connected (st2 ! a)))"
proof -
  obtain self2 st2 where stop: "stop_all_servers self1 st1 dev = (self2, st2)"
    by (cases "stop_all_servers self1 st1 dev") auto
  have ne: "servers (m_config self) \<noteq> []"
  proof
    assume "servers (m_config self) = []"
    then have "server_names self = []" by (simp add: server_names_def get_server_names_def)
    then show False using f by (simp add: failed_starts_def)
  qed
  have run: "start_all_servers fmt self st True cev dev =
           (Inl (ConnectionError
              (''Failed to start '' @ str_nat (length (failed_starts (server_names self) results))
               @ '' server(s):'' @ nl
               @ str_join nl (map (\<lambda>(n, err). n @ '': '' @ str_exn err)
                    (failed_starts (server_names self) results)))), self2, st2)"
    using parallel_failed[OF g f stop] ne by (simp add: start_all_servers_def)
  let ?A = "snd ` set (p_sessions self)"
  have alloc0: "registry_allocated self st" using wf by (simp add: registry_allocated_def)
  have set0: "settled self st ?A" using wf by (simp add: settled_def)
  from gather_start_inv[OF g alloc0 set0] have
    g1: "registry_allocated self1 st1" and s1: "settled self1 st1 (?A \<union> {length st ..< length st1})"
    and le: "length st \<le> length st1"
    by simp_all
  from stop have "stop_each dev (map fst (p_sessions self1)) self1 st1 = (self2, st2)"
    by (simp add: stop_all_servers_def)
  from stop_each_effect[OF this refl] have
    e: "p_sessions self2 = []" "length st2 = length st1"
       "\<forall>b. \<not> is_connected (st1 ! b) \<longrightarrow> \<not> is_connected (st2 ! b)"
       "\<forall>a \<in> snd ` set (p_sessions self1). a < length st1 \<longrightarrow> \<not> is_connected (st2 ! a)"
    by simp_all
  have all: "\<forall>a \<in> ?A \<union> {length st ..< length st1}. \<not> is_connected (st2 ! a)"
  proof
    fix a assume "a \<in> ?A \<union> {length st ..< length st1}"
    then have "a < length st1"
      and "a \<in> snd ` set (p_sessions self1) \<or> \<not> is_connected (st1 ! a)"
      using s1 by (auto simp: settled_def)
    then show "\<not> is_connected (st2 ! a)" using e(3,4) by blast
  qed
  have started: "\<forall>a. Inr a \<in> set results \<longrightarrow> \<not> is_connected (st2 ! a)"
    using gather_start_started[OF g] all by blast
  have tracked: "\<forall>a. a \<in> ?A \<or> (length st \<le> a \<and> a < length st2) \<longrightarrow> \<not> is_connected (st2 ! a)"
    using all e(2) by auto
  have "connected_servers self2 st2 = []" using e(1) by (simp add: connected_servers_def)
  then show ?thesis using run e(1) started tracked by simp
qed

text \<open>
  An instance: a new manager with three configured servers, of which the second fails to
  connect. After the tasks the first and the third are connected; after the call none is.
\<close>

theorem parallel_start_failure_rolls_back_witness:
  "(let fmt = (\<lambda>x. ''30.0'');
        self = MCPServerManager_init demo_config False;
        gathered = gather_start fmt demo_connects 0 (server_names self) self [];
        results = fst gathered;
        after = start_all_servers fmt self [] True demo_connects demo_disconnects
    in p_sessions self = []
       \<and> results = [Inr 0,
                     Inl (ConnectionError
                            (''Failed to connect to MCP server '' @ sq @ ''b'' @ sq
                             @ '': spawn failed'')),
                     Inr 2]
       \<and> connected_servers (fst (snd gathered)) (snd (snd gathered)) = [''a'', ''c'']
       \<and> failed_starts (server_names self) results
           = [(''b'', ConnectionError
                       (''Failed to connect to MCP server '' @ sq @ ''b'' @ sq
                        @ '': spawn failed''))]
       \<and> fst after
           = Inl (ConnectionError
                   (''Failed to start 1 server(s):'' @ nl
                    @ ''b: Failed to connect to MCP server '' @ sq @ ''b'' @ sq
                    @ '': spawn failed''))
       \<and> p_sessions (fst (snd after)) = []
       \<and> connected_servers (fst (snd after)) (snd (snd after)) = []
       \<and> map is_connected (snd (snd after)) = [False, False, False])"
proof -
  define fmt where "fmt = ((\<lambda>x. ''30.0'') :: real \<Rightarrow> string)"
  define self where "self = MCPServerManager_init demo_config False"
  define gathered where
    "gathered = gather_start fmt demo_connects 0 (server_names self) self []"
  define after where
    "after = start_all_servers fmt self [] True demo_connects demo_disconnects"
  have wf: "\<forall>a \<in> snd ` set (p_sessions self). a < length ([] :: store)"
    by (simp add: self_def MCPServerManager_init_def)
  have g: "gather_start fmt demo_connects 0 (server_names self) self []
             = (fst gathered, fst (snd gathered), snd (snd gathered))"
    by (simp add: gathered_def)
  have r: "fst gathered = [Inr 0,
                     Inl (ConnectionError
                            (''Failed to connect to MCP server '' @ sq @ ''b'' @ sq
                             @ '': spawn failed'')),
                     Inr 2]"
    unfolding gathered_def fmt_def self_def by code_simp
  have cs: "connected_servers (fst (snd gathered)) (snd (snd gathered)) = [''a'', ''c'']"
    unfolding gathered_def fmt_def self_def by code_simp
  have fs: "failed_starts (server_names self) (fst gathered)
           = [(''b'', ConnectionError
                       (''Failed to connect to MCP server '' @ sq @ ''b'' @ sq
                        @ '': spawn failed''))]"
    unfolding r unfolding self_def by code_simp
  have ne: "failed_starts (server_names self) (fst gathered) \<noteq> []" using fs by simp
  have len: "map is_connected (snd (snd after)) = [False, False, False]"
    unfolding after_def fmt_def self_def by code_simp
  have one: "str_nat (Suc 0) = ''1''" by code_simp
  from parallel_start_failure_rolls_back[OF wf g ne, of demo_disconnects]
  have c: "fst after
           = Inl (ConnectionError
                   (''Failed to start 1 server(s):'' @ nl
                    @ ''b: Failed to connect to MCP server '' @ sq @ ''b'' @ sq
                    @ '': spawn failed''))
       \<and> p_sessions (fst (snd after)) = []
       \<and> connected_servers (fst (snd after)) (snd (snd after)) = []"
    by (simp add: after_def[symmetric] fs one split: prod.splits)
  have p0: "p_sessions self = []" by (simp add: self_def MCPServerManager_init_def)
  show ?thesis
    using p0 r cs fs c len
    by (simp add: Let_def fmt_def self_def gathered_def after_def)
qed

end
